(* ===== verification/Prelude.thy ===== *)
theory Prelude
  imports Main "HOL-Library.AList"
begin

text \<open>
  Shared vocabulary of the model of \<^verbatim>\<open>src/index.js\<close>. Identifiers produced by
  \<^verbatim>\<open>uuid.v4()\<close> (user ids and game ids), session ids (the cookie of
  \<^verbatim>\<open>express-session\<close>) and WebSocket handles are modelled as natural numbers.
  A JavaScript \<^verbatim>\<open>Map\<close> is an association list in insertion order:
  \<^verbatim>\<open>m.get(k)\<close> is \<^term>\<open>map_of m k\<close>, \<^verbatim>\<open>m.set(k, v)\<close> is
  \<^term>\<open>AList.update k v m\<close> (overwrite in place, or append a new key at the end,
  as a JavaScript \<^verbatim>\<open>Map\<close> does) and \<^verbatim>\<open>m.delete(k)\<close> is
  \<^term>\<open>AList.delete k m\<close>. The HTTP reply \<^verbatim>\<open>res.send({result, message})\<close>
  is the datatype \<open>response\<close>; an exception escaping a handler is
  \<open>InternalError\<close> (Express answers it with status 500).
\<close>

type_synonym uuid = nat
type_synonym sid = nat
type_synonym wsid = nat
type_synonym ('k, 'v) js_map = "('k \<times> 'v) list"

datatype msg = Text string | GameCreated uuid

datatype response =
    Resp string msg
  | InternalError
  | SocketDestroyed
  | Upgraded wsid
  | Pending
  | NoResponse

datatype js_error = TypeError

named_theorems js_map_simps "facts about JavaScript maps as association lists"
named_theorems model_defs "the handler definitions, unfolded to run the model on concrete events"

text \<open>
  The \<^verbatim>\<open>forEach\<close> loop that sets a flag when some element satisfies a test
  (the shape of the membership scan of the join handler) computes an existential.
\<close>

lemma fold_flag_iff:
  "fold (\<lambda>x b. if P x then True else b) xs b \<longleftrightarrow> b \<or> (\<exists>x\<in>set xs. P x)"
  by (induction xs arbitrary: b) auto

lemma fold_flag_split_iff:
  "fold (\<lambda>(k, v) b. if P k v then True else b) xs b \<longleftrightarrow> b \<or> (\<exists>(k, v)\<in>set xs. P k v)"
  by (induction xs arbitrary: b) auto

lemma find_None_iff_all: "find P xs = None \<longleftrightarrow> (\<forall>x\<in>set xs. \<not> P x)"
  by (induction xs) auto

lemma find_Some_mem: "find P xs = Some x \<Longrightarrow> x \<in> set xs \<and> P x"
  by (induction xs) (auto split: if_splits)

lemma filter_same_key_single:
  "distinct (map f xs) \<Longrightarrow> x \<in> set xs \<Longrightarrow> filter (\<lambda>y. f y = f x) xs = [x]"
proof (induction xs)
  case Nil
  then show ?case by simp
next
  case (Cons a xs)
  then show ?case
    by (auto simp: filter_empty_conv intro: rev_image_eqI)
qed

lemma map_of_update_eq [js_map_simps]:
  "map_of (AList.update k v m) k' = (if k' = k then Some v else map_of m k')"
  by (simp add: update_conv')

lemma map_of_delete_eq [js_map_simps]:
  "map_of (AList.delete k m) k' = (if k' = k then None else map_of m k')"
  by (simp add: delete_conv')

lemma keys_update [js_map_simps]:
  "distinct (map fst m) \<Longrightarrow> distinct (map fst (AList.update k v m))"
  by (rule distinct_update)

lemma keys_delete [js_map_simps]:
  "distinct (map fst m) \<Longrightarrow> distinct (map fst (AList.delete k m))"
  by (rule distinct_delete)

lemma keys_update_existing:
  "map_of m k = Some v \<Longrightarrow> fst ` set (AList.update k v' m) = fst ` set m"
proof -
  assume "map_of m k = Some v"
  then have "k \<in> fst ` set m" by (force dest: map_of_SomeD)
  then show ?thesis by (simp add: dom_update insert_absorb)
qed

lemma set_update_sub:
  "(k', v') \<in> set (AList.update k v m) \<Longrightarrow> (k', v') = (k, v) \<or> (k', v') \<in> set m"
  by (induction m) (auto split: if_splits)

lemma set_delete_sub:
  "(k', v') \<in> set (AList.delete k m) \<Longrightarrow> k' \<noteq> k \<and> (k', v') \<in> set m"
  by (auto simp: AList.delete_eq)

lemma distinct_snd_update:
  "distinct (map snd m) \<Longrightarrow> v \<notin> snd ` set m \<Longrightarrow> distinct (map snd (AList.update k v m))"
  by (induction m) (auto dest: set_update_sub)

lemma distinct_snd_delete: "distinct (map snd m) \<Longrightarrow> distinct (map snd (AList.delete k m))"
  by (simp add: AList.delete_eq distinct_map_filter)

lemma distinct_snd_same:
  "distinct (map snd m) \<Longrightarrow> (a, v) \<in> set m \<Longrightarrow> (b, v) \<in> set m \<Longrightarrow> a = b"
  by (metis distinct_map inj_onD prod.inject snd_conv)

text \<open>Counting: distinct identifiers drawn from the first \<open>n\<close> ids.\<close>

lemma distinct_bounded_length:
  assumes "distinct xs" and "\<forall>y\<in>set xs. y < (n::nat)"
  shows "length xs \<le> n"
proof -
  from assms(2) have "set xs \<subseteq> {..<n}" by auto
  then have "card (set xs) \<le> card {..<n}" by (rule card_mono [rotated]) simp
  with assms(1) show ?thesis by (simp add: distinct_card)
qed

lemma distinct_option_bounded_length:
  assumes "distinct xs" and "\<forall>y. Some y \<in> set xs \<longrightarrow> y < (n::nat)"
  shows "length xs \<le> Suc n"
proof -
  have "set xs \<subseteq> insert None (Some ` {..<n})"
  proof
    fix x
    assume "x \<in> set xs"
    with assms(2) show "x \<in> insert None (Some ` {..<n})" by (cases x) auto
  qed
  then have "card (set xs) \<le> card (insert None (Some ` {..<n}))" by (rule card_mono [rotated]) simp
  also have "\<dots> = Suc n" by (simp add: card_image)
  finally show ?thesis using assms(1) by (simp add: distinct_card)
qed

end
