(* ===== verification/Identity.thy ===== *)
theory Identity
  imports Prelude
begin

text \<open>
  IdentityStore: the session store of \<^verbatim>\<open>express-session\<close>
  (\<^verbatim>\<open>sessionParser\<close>, \<^verbatim>\<open>src/index.js\<close> lines 16--24), seen through the one
  field the program writes, \<^verbatim>\<open>req.session.userId\<close>. A request carries the session
  id of its cookie; \<^term>\<open>session_user\<close> is the value of
  \<^verbatim>\<open>req.session.userId\<close> for it (\<open>None\<close> is \<^verbatim>\<open>undefined\<close>, the value of a
  fresh, a destroyed or an expired session). The store is a map from session ids to
  user ids; a session without a user id is the same as no entry, because every
  handler reads only \<^verbatim>\<open>userId\<close> and \<^verbatim>\<open>saveUninitialized: true\<close> makes a fresh
  empty session for any unknown cookie.
\<close>

type_synonym session_store = "(sid, uuid) js_map"

datatype identity_error = AlreadyAuthenticated

definition session_user :: "session_store \<Rightarrow> sid \<Rightarrow> uuid option" where
  "session_user ss sid = map_of ss sid"

text \<open>
  The session part of \<^verbatim>\<open>POST /login\<close> (lines 33--40): refuse when the session
  already carries a user id, otherwise bind the freshly generated id to it.
\<close>

definition session_login :: "session_store \<Rightarrow> sid \<Rightarrow> uuid \<Rightarrow> identity_error + session_store" where
  "session_login ss sid uid =
     (if session_user ss sid \<noteq> None then Inl AlreadyAuthenticated
      else Inr (AList.update sid uid ss))"

text \<open>
  \<^verbatim>\<open>req.session.destroy\<close> (line 119), which also models the expiry of the cookie
  after \<^verbatim>\<open>maxAge\<close>: the store forgets the session.
\<close>

definition session_destroy :: "session_store \<Rightarrow> sid \<Rightarrow> session_store" where
  "session_destroy ss sid = AList.delete sid ss"

declare session_user_def [model_defs] session_login_def [model_defs] session_destroy_def [model_defs]

lemma session_login_Inr:
  "session_login ss sid uid = Inr ss' \<longleftrightarrow> session_user ss sid = None \<and> ss' = AList.update sid uid ss"
  by (auto simp: session_login_def)

lemma session_user_login:
  "session_login ss sid uid = Inr ss' \<Longrightarrow>
   session_user ss' x = (if x = sid then Some uid else session_user ss x)"
  by (auto simp: session_login_Inr session_user_def map_of_update_eq)

lemma session_user_destroy:
  "session_user (session_destroy ss sid) x = (if x = sid then None else session_user ss x)"
  by (simp add: session_user_def session_destroy_def map_of_delete_eq)

lemma session_destroy_idem: "session_destroy (session_destroy ss sid) sid = session_destroy ss sid"
  by (simp add: session_destroy_def delete_idem)

lemma session_user_Some_mem: "session_user ss sid = Some u \<Longrightarrow> (sid, u) \<in> set ss"
  by (simp add: session_user_def map_of_SomeD)

lemma session_values_update: "snd ` set (AList.update sid u ss) \<subseteq> insert u (snd ` set ss)"
  by (auto dest: set_update_sub)

lemma session_values_destroy: "snd ` set (session_destroy ss sid) \<subseteq> snd ` set ss"
  by (auto simp: session_destroy_def dest: set_delete_sub)

end
