(* ===== verification/Games.thy ===== *)
theory Games
  imports Prelude
begin

text \<open>
  GameRegistry: the map \<^verbatim>\<open>gamePopulation\<close> (\<^verbatim>\<open>src/index.js\<close> line 13) from a
  game id to its array of participants \<^verbatim>\<open>{userId, cards}\<close>, and the parts of the
  handlers \<^verbatim>\<open>POST /game/create\<close>, \<^verbatim>\<open>POST /game/:gameId/join\<close> and
  \<^verbatim>\<open>POST /game/:gameId/draw\<close> that read and write it. A participant's
  \<^verbatim>\<open>userId\<close> is copied from \<^verbatim>\<open>req.session.userId\<close>, which is
  \<^verbatim>\<open>undefined\<close> for a visitor who never logged in: it is a \<open>uuid option\<close>, and
  the source's \<^verbatim>\<open>===\<close> is equality on it (\<^verbatim>\<open>undefined === undefined\<close>).
  The errors of the registry are the values of \<open>game_error\<close>; the handlers of
  \<open>Gateway\<close> turn them into the replies of the source.
\<close>

record participant =
  userId :: "uuid option"
  cards :: "string list"

type_synonym game_population = "(uuid, participant list) js_map"

datatype game_error = GameNotFound | AlreadyInAGame | NotAParticipant

definition create_game :: "game_population \<Rightarrow> uuid \<Rightarrow> game_population" where
  "create_game gp gid = AList.update gid [] gp"

definition new_participant :: "uuid option \<Rightarrow> participant" where
  "new_participant u = \<lparr>userId = u, cards = []\<rparr>"

definition already_in_game :: "game_population \<Rightarrow> uuid option \<Rightarrow> bool" where
  "already_in_game gp u =
     fold (\<lambda>(key, value) alreadyInGame.
             if find (\<lambda>val. userId val = u) value \<noteq> None then True else alreadyInGame)
          gp False"

definition join_game :: "game_population \<Rightarrow> uuid \<Rightarrow> uuid option \<Rightarrow> game_error + game_population" where
  "join_game gp gameId u =
     (case map_of gp gameId of
        None \<Rightarrow> Inl GameNotFound
      | Some participants \<Rightarrow>
          if already_in_game gp u then Inl AlreadyInAGame
          else Inr (AList.update gameId (participants @ [new_participant u]) gp))"

fun push_card :: "uuid option \<Rightarrow> participant list \<Rightarrow> participant list" where
  "push_card u [] = []"
| "push_card u (p # ps) =
     (if userId p = u then p\<lparr>cards := cards p @ [''newCard'']\<rparr> # ps
      else p # push_card u ps)"

definition draw_card ::
  "game_population \<Rightarrow> uuid \<Rightarrow> uuid option \<Rightarrow> game_error + (game_population \<times> participant list)" where
  "draw_card gp gameId u =
     (case map_of gp gameId of
        None \<Rightarrow> Inl GameNotFound
      | Some participants \<Rightarrow>
          (case find (\<lambda>part. userId part = u) participants of
             None \<Rightarrow> Inl NotAParticipant
           | Some participant \<Rightarrow>
               (let participants' = push_card u participants
                in Inr (AList.update gameId participants' gp, participants'))))"

text \<open>The identities that occur as participants, game by game in map order.\<close>

definition members :: "game_population \<Rightarrow> uuid option list" where
  "members gp = concat (map (\<lambda>(g, ps). map userId ps) gp)"

text \<open>
  The registry's invariant: game ids are keys of a map, and no identity occurs twice
  among all participants of all games (single-game membership, and at most one
  participant record per identity within its game).
\<close>

definition games_inv :: "game_population \<Rightarrow> bool" where
  "games_inv gp \<longleftrightarrow> distinct (map fst gp) \<and> distinct (members gp)"

text \<open>
  The reverse index that the design notes propose (identity to game id), read off the
  forward map: the abstract view of the registry's membership.
\<close>

definition game_of :: "game_population \<Rightarrow> uuid option \<Rightarrow> uuid option" where
  "game_of gp u = map_option fst (find (\<lambda>(g, ps). u \<in> set (map userId ps)) gp)"

definition card_count :: "participant list \<Rightarrow> uuid option \<Rightarrow> nat" where
  "card_count ps u = (case find (\<lambda>p. userId p = u) ps of None \<Rightarrow> 0 | Some p \<Rightarrow> length (cards p))"

declare create_game_def [model_defs] new_participant_def [model_defs]
  already_in_game_def [model_defs] join_game_def [model_defs] draw_card_def [model_defs]
  card_count_def [model_defs]

lemma mem_members: "u \<in> set (members gp) \<longleftrightarrow> (\<exists>(g, ps)\<in>set gp. u \<in> userId ` set ps)"
  by (auto simp: members_def)

lemma already_in_game_iff: "already_in_game gp u \<longleftrightarrow> u \<in> set (members gp)"
  by (auto simp: already_in_game_def fold_flag_split_iff find_None_iff_all mem_members)

lemma members_update_None:
  "map_of gp g = None \<Longrightarrow> members (AList.update g ps gp) = members gp @ map userId ps"
  by (induction gp) (auto simp: members_def split: if_splits)

lemma members_update_Some:
  "map_of gp g = Some ps0 \<Longrightarrow>
   \<exists>pre post. members gp = pre @ map userId ps0 @ post \<and>
              members (AList.update g ps gp) = pre @ map userId ps @ post"
proof (induction gp)
  case Nil
  then show ?case by simp
next
  case (Cons kv gp)
  obtain k v where kv: "kv = (k, v)" by fastforce
  show ?case
  proof (cases "k = g")
    case True
    with Cons.prems kv show ?thesis by (auto simp: members_def)
  next
    case False
    with Cons.prems kv obtain pre post where
      "members gp = pre @ map userId ps0 @ post"
      "members (AList.update g ps gp) = pre @ map userId ps @ post"
      using Cons.IH by auto
    with False kv show ?thesis
      by (rule_tac x = "map userId v @ pre" in exI) (simp add: members_def)
  qed
qed

lemma push_card_userIds: "map userId (push_card u ps) = map userId ps"
  by (induction ps) auto

lemma push_card_userId_set: "userId ` set (push_card u ps) = userId ` set ps"
  by (metis list.set_map push_card_userIds)

lemma push_card_ex_userId: "(\<exists>p\<in>set (push_card u ps). P (userId p)) \<longleftrightarrow> (\<exists>p\<in>set ps. P (userId p))"
  by (induction ps) auto

lemma push_card_first:
  "u \<in> userId ` set ps \<Longrightarrow>
   \<exists>i<length ps. userId (ps ! i) = u \<and> (\<forall>j<i. userId (ps ! j) \<noteq> u) \<and>
     push_card u ps = ps[i := (ps ! i)\<lparr>cards := cards (ps ! i) @ [''newCard'']\<rparr>]"
proof (induction ps)
  case Nil
  then show ?case by simp
next
  case (Cons p ps)
  show ?case
  proof (cases "userId p = u")
    case True
    then show ?thesis by (intro exI [of _ 0]) simp
  next
    case False
    with Cons obtain i where "i < length ps" "userId (ps ! i) = u" "\<forall>j<i. userId (ps ! j) \<noteq> u"
      and "push_card u ps = ps[i := (ps ! i)\<lparr>cards := cards (ps ! i) @ [''newCard'']\<rparr>]" by auto
    with False show ?thesis
      by (intro exI [of _ "Suc i"]) (auto simp: less_Suc_eq_0_disj)
  qed
qed

lemma push_card_append_absent:
  "u \<notin> userId ` set ps \<Longrightarrow> push_card u (ps @ qs) = ps @ push_card u qs"
  by (induction ps) auto

lemma push_card_length: "length (push_card u ps) = length ps"
  by (induction ps) auto

lemma members_update_same:
  "map_of gp g = Some ps0 \<Longrightarrow> map userId ps = map userId ps0 \<Longrightarrow>
   members (AList.update g ps gp) = members gp"
proof -
  assume a: "map_of gp g = Some ps0" and b: "map userId ps = map userId ps0"
  from members_update_Some [OF a, of ps] b show ?thesis by auto
qed

lemma create_game_inv: "games_inv gp \<Longrightarrow> games_inv (create_game gp g)"
proof -
  assume inv: "games_inv gp"
  show ?thesis
  proof (cases "map_of gp g")
    case None
    with inv show ?thesis
      by (simp add: games_inv_def create_game_def members_update_None distinct_update)
  next
    case (Some ps0)
    then obtain pre post where
      "members gp = pre @ map userId ps0 @ post"
      "members (AList.update g [] gp) = pre @ post"
      using members_update_Some [of gp g ps0 "[]"] by auto
    with inv show ?thesis
      by (auto simp: games_inv_def create_game_def distinct_update)
  qed
qed

lemma join_game_Inr:
  "join_game gp g u = Inr gp' \<longleftrightarrow>
   (\<exists>ps. map_of gp g = Some ps \<and> u \<notin> set (members gp) \<and>
         gp' = AList.update g (ps @ [new_participant u]) gp)"
  by (auto simp: join_game_def already_in_game_iff split: option.splits)

lemma join_game_inv: "games_inv gp \<Longrightarrow> join_game gp g u = Inr gp' \<Longrightarrow> games_inv gp'"
proof -
  assume inv: "games_inv gp" and ok: "join_game gp g u = Inr gp'"
  then obtain ps where ps: "map_of gp g = Some ps" and notin: "u \<notin> set (members gp)"
    and gp': "gp' = AList.update g (ps @ [new_participant u]) gp"
    by (auto simp: join_game_Inr)
  obtain pre post where
    m: "members gp = pre @ map userId ps @ post"
    and m': "members gp' = pre @ map userId (ps @ [new_participant u]) @ post"
    using members_update_Some [OF ps] gp' by blast
  from inv notin m have "distinct (pre @ map userId ps @ [u] @ post)"
    by (auto simp: games_inv_def)
  with inv m' gp' show ?thesis
    by (simp add: games_inv_def new_participant_def distinct_update)
qed

lemma draw_card_Inr:
  "draw_card gp g u = Inr (gp', ps') \<longleftrightarrow>
   (\<exists>ps. map_of gp g = Some ps \<and> u \<in> userId ` set ps \<and>
         ps' = push_card u ps \<and> gp' = AList.update g ps' gp)"
  by (auto simp: draw_card_def find_None_iff_all Let_def split: option.splits
      dest!: find_Some_mem)

lemma draw_card_inv: "games_inv gp \<Longrightarrow> draw_card gp g u = Inr (gp', ps') \<Longrightarrow> games_inv gp'"
  by (auto simp: draw_card_Inr games_inv_def members_update_same push_card_userIds distinct_update)

lemma game_of_None_iff: "game_of gp u = None \<longleftrightarrow> u \<notin> set (members gp)"
  by (auto simp: game_of_def find_None_iff_all mem_members)

lemma game_of_Some: "game_of gp u = Some g \<Longrightarrow> \<exists>ps. (g, ps) \<in> set gp \<and> u \<in> userId ` set ps"
  by (auto simp: game_of_def dest!: find_Some_mem)

lemma game_of_update_join:
  "map_of gp g = Some ps \<Longrightarrow> u \<notin> set (members gp) \<Longrightarrow>
   game_of (AList.update g (ps @ [new_participant u]) gp) v = (if v = u then Some g else game_of gp v)"
  by (induction gp) (auto simp: game_of_def members_def new_participant_def split: if_splits)

lemma game_of_update_same:
  "map_of gp g = Some ps0 \<Longrightarrow> map userId ps = map userId ps0 \<Longrightarrow>
   game_of (AList.update g ps gp) = game_of gp"
proof
  fix v
  assume "map_of gp g = Some ps0" and "map userId ps = map userId ps0"
  moreover from this(2) have "userId ` set ps = userId ` set ps0"
    by (metis list.set_map)
  ultimately show "game_of (AList.update g ps gp) v = game_of gp v"
  proof (induction gp)
    case Nil
    then show ?case by simp
  next
    case (Cons kv gp)
    then show ?case
      by (cases kv) (auto simp: game_of_def)
  qed
qed

lemma create_game_keys: "fst ` set (create_game gp g) = insert g (fst ` set gp)"
  by (simp add: create_game_def dom_update)

lemma game_of_create_fresh:
  "g \<notin> fst ` set gp \<Longrightarrow> game_of (create_game gp g) = game_of gp"
proof
  fix v
  assume "g \<notin> fst ` set gp"
  then show "game_of (create_game gp g) v = game_of gp v"
    by (induction gp) (auto simp: create_game_def game_of_def)
qed

lemma create_game_members: "set (members (create_game gp g)) \<subseteq> set (members gp)"
proof (cases "map_of gp g")
  case None
  then show ?thesis by (simp add: create_game_def members_update_None)
next
  case (Some ps0)
  then obtain pre post where
    "members gp = pre @ map userId ps0 @ post" "members (AList.update g [] gp) = pre @ post"
    using members_update_Some [of gp g ps0 "[]"] by auto
  then show ?thesis by (auto simp: create_game_def)
qed

lemma join_game_keys: "join_game gp g u = Inr gp' \<Longrightarrow> fst ` set gp' = fst ` set gp"
  by (clarsimp simp: join_game_Inr) (erule keys_update_existing)

lemma join_game_members:
  "join_game gp g u = Inr gp' \<Longrightarrow> set (members gp') = insert u (set (members gp))"
proof -
  assume "join_game gp g u = Inr gp'"
  then obtain ps where ps: "map_of gp g = Some ps"
    and gp': "gp' = AList.update g (ps @ [new_participant u]) gp"
    by (auto simp: join_game_Inr)
  from members_update_Some [OF ps, of "ps @ [new_participant u]"] gp'
  show ?thesis by (auto simp: new_participant_def)
qed

lemma draw_card_keys: "draw_card gp g u = Inr (gp', ps') \<Longrightarrow> fst ` set gp' = fst ` set gp"
  by (clarsimp simp: draw_card_Inr) (erule keys_update_existing)

lemma draw_card_members: "draw_card gp g u = Inr (gp', ps') \<Longrightarrow> members gp' = members gp"
  by (auto simp: draw_card_Inr members_update_same push_card_userIds)

lemma members_unique:
  "distinct (map fst gp) \<Longrightarrow> distinct (members gp) \<Longrightarrow>
   (g1, ps1) \<in> set gp \<Longrightarrow> (g2, ps2) \<in> set gp \<Longrightarrow> p1 \<in> set ps1 \<Longrightarrow> p2 \<in> set ps2 \<Longrightarrow>
   userId p1 = userId p2 \<Longrightarrow> g1 = g2 \<and> p1 = p2"
proof (induction gp arbitrary: g1 ps1 g2 ps2)
  case Nil
  then show ?case by simp
next
  case (Cons kv gp)
  obtain k v where kv: "kv = (k, v)" by fastforce
  from Cons.prems(1,2) kv have dv: "distinct (map userId v)"
    and disj: "set (map userId v) \<inter> set (members gp) = {}"
    and rest: "distinct (map fst gp)" "distinct (members gp)"
    by (simp_all add: members_def)
  have mem: "userId p \<in> set (members gp)" if "(g, ps) \<in> set gp" "p \<in> set ps" for g ps p
    using that by (force simp: mem_members)
  consider "(g1, ps1) = (k, v)" | "(g1, ps1) \<in> set gp"
    using Cons.prems(3) kv by auto
  then show ?case
  proof cases
    case 1
    consider "(g2, ps2) = (k, v)" | "(g2, ps2) \<in> set gp"
      using Cons.prems(4) kv by auto
    then show ?thesis
    proof cases
      case 1
      with \<open>(g1, ps1) = (k, v)\<close> Cons.prems(5,6,7) dv show ?thesis
        by (auto simp: distinct_map dest: inj_onD)
    next
      case 2
      with \<open>(g1, ps1) = (k, v)\<close> Cons.prems(5,6,7) disj mem show ?thesis
        by fastforce
    qed
  next
    case 2
    consider "(g2, ps2) = (k, v)" | "(g2, ps2) \<in> set gp"
      using Cons.prems(4) kv by auto
    then show ?thesis
    proof cases
      case 1
      with 2 Cons.prems(5,6,7) disj mem show ?thesis
        by fastforce
    next
      case 2
      with \<open>(g1, ps1) \<in> set gp\<close> Cons.prems(5,6,7) rest show ?thesis
        by (rule_tac Cons.IH) auto
    qed
  qed
qed

lemma games_inv_unique:
  "games_inv gp \<Longrightarrow> map_of gp g1 = Some ps1 \<Longrightarrow> map_of gp g2 = Some ps2 \<Longrightarrow>
   p1 \<in> set ps1 \<Longrightarrow> p2 \<in> set ps2 \<Longrightarrow> userId p1 = userId p2 \<Longrightarrow> g1 = g2 \<and> p1 = p2"
  unfolding games_inv_def using members_unique [of gp g1 ps1 g2 ps2 p1 p2]
  by (blast dest: map_of_SomeD)

lemma games_inv_game_ids:
  "games_inv gp \<Longrightarrow> map_of gp g = Some ps \<Longrightarrow> distinct (map userId ps)"
proof -
  assume inv: "games_inv gp" and g: "map_of gp g = Some ps"
  then obtain pre post where "members gp = pre @ map userId ps @ post"
    using members_update_Some [OF g, of ps] by blast
  with inv show ?thesis by (simp add: games_inv_def)
qed

lemma card_count_push_card:
  "card_count (push_card u ps) v =
   (if v = u \<and> u \<in> userId ` set ps then Suc (card_count ps v) else card_count ps v)"
  by (induction ps) (auto simp: card_count_def)

text \<open>
  C15. The membership scan of the join handler (a \<^verbatim>\<open>forEach\<close> over every game
  with a \<^verbatim>\<open>find\<close> in each) answers exactly what the reverse index identity to
  game would answer.
\<close>

theorem already_in_game_reverse_index:
  "already_in_game gp u \<longleftrightarrow> game_of gp u \<noteq> None"
  by (simp add: already_in_game_iff game_of_None_iff)

text \<open>
  C16. Refinement of join: on the reverse-index view, a successful join is the map
  update identity to game id, and nobody else's game changes.
\<close>

theorem join_game_refines_index:
  "join_game gp g u = Inr gp' \<Longrightarrow> game_of gp' = (game_of gp)(u \<mapsto> g)"
proof
  fix v
  assume "join_game gp g u = Inr gp'"
  then obtain ps where ps: "map_of gp g = Some ps" and u: "u \<notin> set (members gp)"
    and gp': "gp' = AList.update g (ps @ [new_participant u]) gp"
    by (auto simp: join_game_Inr)
  show "game_of gp' v = ((game_of gp)(u \<mapsto> g)) v"
    using game_of_update_join [OF ps u, of v] gp' by simp
qed

theorem join_game_refines_index_witness:
  "join_game [(1, [\<lparr>userId = Some 0, cards = []\<rparr>]), (3, [])] 3 (Some 2) =
     Inr [(1, [\<lparr>userId = Some 0, cards = []\<rparr>]), (3, [\<lparr>userId = Some 2, cards = []\<rparr>])] \<and>
   game_of [(1, [\<lparr>userId = Some 0, cards = []\<rparr>]), (3, [\<lparr>userId = Some 2, cards = []\<rparr>])] (Some 2) = Some 3"
proof -
  have j: "join_game [(1, [\<lparr>userId = Some 0, cards = []\<rparr>]), (3, [])] 3 (Some 2) =
     Inr [(1, [\<lparr>userId = Some 0, cards = []\<rparr>]), (3, [\<lparr>userId = Some 2, cards = []\<rparr>])]"
    by (simp add: join_game_def already_in_game_def new_participant_def)
  from join_game_refines_index [OF j] j show ?thesis by (metis fun_upd_same)
qed

text \<open>
  C17. A draw changes exactly one card list: the participant that
  \<^verbatim>\<open>participants.find\<close> returns (the first one with the drawer's id) gets one
  \<^verbatim>\<open>'newCard'\<close> appended, every other participant and every other game are left
  as they were, and the reverse index is unchanged.
\<close>

theorem draw_card_pushes_one_card:
  assumes "draw_card gp g u = Inr (gp', ps')" and "map_of gp g = Some ps"
  shows "map_of gp' = (map_of gp)(g \<mapsto> ps') \<and> game_of gp' = game_of gp \<and>
    (\<exists>i<length ps. userId (ps ! i) = u \<and> (\<forall>j<i. userId (ps ! j) \<noteq> u) \<and>
       ps' = ps[i := (ps ! i)\<lparr>cards := cards (ps ! i) @ [''newCard'']\<rparr>])"
proof -
  from assms have u: "u \<in> userId ` set ps" and ps': "ps' = push_card u ps"
    and gp': "gp' = AList.update g ps' gp"
    by (auto simp: draw_card_Inr)
  have "game_of gp' = game_of gp"
    using assms(2) gp' ps' by (simp add: push_card_userIds game_of_update_same)
  moreover have "map_of gp' = (map_of gp)(g \<mapsto> ps')"
    using gp' by (simp add: update_conv' fun_eq_iff)
  ultimately show ?thesis using push_card_first [OF u] ps' by simp
qed

theorem draw_card_pushes_one_card_witness:
  "draw_card [(1, [\<lparr>userId = Some 0, cards = []\<rparr>, \<lparr>userId = Some 2, cards = [''c'']\<rparr>])] 1 (Some 2) =
     Inr ([(1, [\<lparr>userId = Some 0, cards = []\<rparr>, \<lparr>userId = Some 2, cards = [''c'', ''newCard'']\<rparr>])],
          [\<lparr>userId = Some 0, cards = []\<rparr>, \<lparr>userId = Some 2, cards = [''c'', ''newCard'']\<rparr>]) \<and>
   map_of [(1::uuid, [\<lparr>userId = Some 0, cards = []\<rparr>, \<lparr>userId = Some 2, cards = [''c'']\<rparr>])] 1 =
     Some [\<lparr>userId = Some 0, cards = []\<rparr>, \<lparr>userId = Some 2, cards = [''c'']\<rparr>] \<and>
   game_of [(1, [\<lparr>userId = Some 0, cards = []\<rparr>, \<lparr>userId = Some 2, cards = [''c'', ''newCard'']\<rparr>])] =
   game_of [(1, [\<lparr>userId = Some 0, cards = []\<rparr>, \<lparr>userId = Some 2, cards = [''c'']\<rparr>])]"
proof -
  have d: "draw_card [(1, [\<lparr>userId = Some 0, cards = []\<rparr>, \<lparr>userId = Some 2, cards = [''c'']\<rparr>])] 1 (Some 2) =
     Inr ([(1, [\<lparr>userId = Some 0, cards = []\<rparr>, \<lparr>userId = Some 2, cards = [''c'', ''newCard'']\<rparr>])],
          [\<lparr>userId = Some 0, cards = []\<rparr>, \<lparr>userId = Some 2, cards = [''c'', ''newCard'']\<rparr>])"
    by (simp add: draw_card_def Let_def)
  have m: "map_of [(1::uuid, [\<lparr>userId = Some 0, cards = []\<rparr>, \<lparr>userId = Some 2, cards = [''c'']\<rparr>])] 1 =
     Some [\<lparr>userId = Some 0, cards = []\<rparr>, \<lparr>userId = Some 2, cards = [''c'']\<rparr>]" by simp
  from draw_card_pushes_one_card [OF d m] d m show ?thesis by simp
qed

end
