(* ===== verification/Connections.thy ===== *)
theory Connections
  imports Prelude
begin

text \<open>
  ConnectionRegistry: the map \<^verbatim>\<open>map\<close> (\<^verbatim>\<open>src/index.js\<close> line 12) from a user
  id to its WebSocket, the sockets themselves, and the handlers of the socket's life:
  \<^verbatim>\<open>wss.on('connection')\<close> (lines 151--155), \<^verbatim>\<open>ws.on('close')\<close> (lines
  178--180), and the two socket methods the program calls, \<^verbatim>\<open>ws.send\<close> and
  \<^verbatim>\<open>ws.close\<close>. Sockets are kept in a list indexed by \<open>wsid\<close> (a new socket is
  appended, so its handle is fresh); each records the user id captured by its
  \<^verbatim>\<open>connection\<close> closure, its \<^verbatim>\<open>readyState\<close> and the messages delivered to
  it. The \<^verbatim>\<open>ws\<close> library sends only on an \<^verbatim>\<open>OPEN\<close> socket; a send on a
  closing or closed socket is dropped without an exception, and \<^verbatim>\<open>close()\<close> on a
  socket that is not open does nothing.
\<close>

datatype ready_state = OPEN | CLOSING | CLOSED

record sock =
  owner :: uuid
  readyState :: ready_state
  received :: "string list"

type_synonym conn_map = "(uuid, wsid) js_map"

text \<open>\<^verbatim>\<open>map.get(part.userId)\<close>, where the key may be \<^verbatim>\<open>undefined\<close>, which is never a key.\<close>

definition lookup_conn :: "conn_map \<Rightarrow> uuid option \<Rightarrow> wsid option" where
  "lookup_conn cm k = (case k of None \<Rightarrow> None | Some u \<Rightarrow> map_of cm u)"

definition ws_send :: "sock list \<Rightarrow> wsid \<Rightarrow> string \<Rightarrow> sock list" where
  "ws_send ss w m =
     (if w < length ss \<and> readyState (ss ! w) = OPEN
      then ss[w := (ss ! w)\<lparr>received := received (ss ! w) @ [m]\<rparr>] else ss)"

definition ws_close :: "sock list \<Rightarrow> wsid \<Rightarrow> sock list" where
  "ws_close ss w =
     (if w < length ss \<and> readyState (ss ! w) = OPEN
      then ss[w := (ss ! w)\<lparr>readyState := CLOSING\<rparr>] else ss)"

text \<open>
  \<^verbatim>\<open>wss.on('connection')\<close>: the upgraded socket is open and
  \<^verbatim>\<open>map.set(userId, ws)\<close> overwrites any earlier socket of the same user.
\<close>

definition on_connection :: "conn_map \<Rightarrow> sock list \<Rightarrow> uuid \<Rightarrow> conn_map \<times> sock list \<times> wsid" where
  "on_connection cm ss userId =
     (let ws = length ss
      in (AList.update userId ws cm,
          ss @ [\<lparr>owner = userId, readyState = OPEN, received = []\<rparr>], ws))"

text \<open>
  \<^verbatim>\<open>ws.on('close')\<close>: the socket is closed and \<^verbatim>\<open>map.delete(userId)\<close> runs
  with the user id of the closure, whatever socket the map holds for it now.
\<close>

definition on_close :: "conn_map \<Rightarrow> sock list \<Rightarrow> wsid \<Rightarrow> conn_map \<times> sock list" where
  "on_close cm ss w =
     (if w < length ss \<and> readyState (ss ! w) \<noteq> CLOSED
      then (AList.delete (owner (ss ! w)) cm, ss[w := (ss ! w)\<lparr>readyState := CLOSED\<rparr>])
      else (cm, ss))"

text \<open>
  The registry's invariant: one entry per user, and every entry names an existing
  socket of that user that has not closed.
\<close>

definition conn_inv :: "conn_map \<Rightarrow> sock list \<Rightarrow> bool" where
  "conn_inv cm ss \<longleftrightarrow>
     distinct (map fst cm) \<and>
     (\<forall>(u, w)\<in>set cm. w < length ss \<and> owner (ss ! w) = u \<and> readyState (ss ! w) \<noteq> CLOSED)"

declare lookup_conn_def [model_defs] ws_send_def [model_defs] ws_close_def [model_defs]
  on_connection_def [model_defs] on_close_def [model_defs]

lemma ws_send_length [simp]: "length (ws_send ss w m) = length ss"
  by (simp add: ws_send_def)

lemma ws_send_nth:
  "v < length ss \<Longrightarrow> ws_send ss w m ! v =
     (if v = w \<and> readyState (ss ! w) = OPEN then (ss ! v)\<lparr>received := received (ss ! v) @ [m]\<rparr>
      else ss ! v)"
  by (auto simp: ws_send_def)

lemma ws_send_owner [simp]: "v < length ss \<Longrightarrow> owner (ws_send ss w m ! v) = owner (ss ! v)"
  by (simp add: ws_send_nth)

lemma ws_send_readyState [simp]: "v < length ss \<Longrightarrow> readyState (ws_send ss w m ! v) = readyState (ss ! v)"
  by (simp add: ws_send_nth)

lemma ws_close_length [simp]: "length (ws_close ss w) = length ss"
  by (simp add: ws_close_def)

lemma ws_close_nth:
  "v < length ss \<Longrightarrow> ws_close ss w ! v =
     (if v = w \<and> readyState (ss ! w) = OPEN then (ss ! v)\<lparr>readyState := CLOSING\<rparr> else ss ! v)"
  by (auto simp: ws_close_def)

lemma conn_inv_entry:
  "conn_inv cm ss \<Longrightarrow> map_of cm u = Some w \<Longrightarrow>
   w < length ss \<and> owner (ss ! w) = u \<and> readyState (ss ! w) \<noteq> CLOSED"
  by (auto simp: conn_inv_def dest!: map_of_SomeD)

lemma conn_inv_lookup:
  "conn_inv cm ss \<Longrightarrow> lookup_conn cm k = Some w \<Longrightarrow>
   w < length ss \<and> k = Some (owner (ss ! w)) \<and> readyState (ss ! w) \<noteq> CLOSED"
  by (auto simp: lookup_conn_def dest: conn_inv_entry split: option.splits)

lemma conn_inv_sockets:
  "length ss' = length ss \<Longrightarrow>
   (\<And>v. v < length ss \<Longrightarrow> owner (ss' ! v) = owner (ss ! v)) \<Longrightarrow>
   (\<And>v. v < length ss \<Longrightarrow> readyState (ss ! v) \<noteq> CLOSED \<Longrightarrow> readyState (ss' ! v) \<noteq> CLOSED) \<Longrightarrow>
   conn_inv cm ss \<Longrightarrow> conn_inv cm ss'"
  by (fastforce simp: conn_inv_def)

lemma ws_send_conn_inv: "conn_inv cm ss \<Longrightarrow> conn_inv cm (ws_send ss w m)"
  by (rule conn_inv_sockets) auto

lemma ws_close_conn_inv: "conn_inv cm ss \<Longrightarrow> conn_inv cm (ws_close ss w)"
  by (rule conn_inv_sockets) (auto simp: ws_close_nth)

lemma on_connection_conn_inv:
  "conn_inv cm ss \<Longrightarrow> on_connection cm ss u = (cm', ss', w) \<Longrightarrow> conn_inv cm' ss'"
  by (auto simp: conn_inv_def on_connection_def Let_def distinct_update nth_append
      dest!: set_update_sub)

lemma on_close_conn_inv:
  "conn_inv cm ss \<Longrightarrow> on_close cm ss w = (cm', ss') \<Longrightarrow> conn_inv cm' ss'"
  by (auto simp: conn_inv_def on_close_def distinct_delete nth_list_update
      dest!: set_delete_sub split: if_splits)

lemma on_connection_lookup:
  "on_connection cm ss u = (cm', ss', w) \<Longrightarrow>
   w = length ss \<and> map_of cm' u = Some w \<and> ss' ! w = \<lparr>owner = u, readyState = OPEN, received = []\<rparr>"
  by (auto simp: on_connection_def Let_def map_of_update_eq)

lemma on_close_unbinds_owner:
  "w < length ss \<Longrightarrow> readyState (ss ! w) \<noteq> CLOSED \<Longrightarrow>
   map_of (fst (on_close cm ss w)) (owner (ss ! w)) = None"
  by (simp add: on_close_def map_of_delete_eq)

end
