(* ===== verification/Fanout.thy ===== *)
theory Fanout
  imports Games Connections
begin

text \<open>
  NotificationFanout: the loop of the draw handler (\<^verbatim>\<open>src/index.js\<close> lines
  75--77)
  \<^verbatim>\<open>participants.forEach(part => { map.get(part.userId).send("someone got a card"); })\<close>.
  When \<^verbatim>\<open>map.get\<close> finds no socket it returns \<^verbatim>\<open>undefined\<close> and
  \<^verbatim>\<open>undefined.send\<close> throws a \<^verbatim>\<open>TypeError\<close>: the loop stops there, the
  sends already made stay made, and the exception leaves the handler. The model returns
  the sockets after the sends that happened, and \<open>Inl TypeError\<close> when the loop
  threw.
\<close>

fun broadcast :: "conn_map \<Rightarrow> sock list \<Rightarrow> participant list \<Rightarrow> string \<Rightarrow> sock list \<times> (js_error + unit)" where
  "broadcast cm ss [] m = (ss, Inr ())"
| "broadcast cm ss (part # ps) m =
     (case lookup_conn cm (userId part) of
        None \<Rightarrow> (ss, Inl TypeError)
      | Some ws \<Rightarrow> broadcast cm (ws_send ss ws m) ps m)"

text \<open>
  The participants the loop reaches: all of them up to, not including, the first one
  without a socket in the map.
\<close>

definition reached :: "conn_map \<Rightarrow> participant list \<Rightarrow> participant list" where
  "reached cm ps = takeWhile (\<lambda>p. lookup_conn cm (userId p) \<noteq> None) ps"

definition all_connected :: "conn_map \<Rightarrow> participant list \<Rightarrow> bool" where
  "all_connected cm ps \<longleftrightarrow> list_all (\<lambda>p. lookup_conn cm (userId p) \<noteq> None) ps"

definition sends_to :: "conn_map \<Rightarrow> participant list \<Rightarrow> wsid \<Rightarrow> nat" where
  "sends_to cm ps w = length (filter (\<lambda>p. lookup_conn cm (userId p) = Some w) (reached cm ps))"

lemma broadcast_result:
  "snd (broadcast cm ss ps m) = (if all_connected cm ps then Inr () else Inl TypeError)"
  by (induction cm ss ps m rule: broadcast.induct)
     (auto simp: all_connected_def split: option.splits)

lemma broadcast_length [simp]: "length (fst (broadcast cm ss ps m)) = length ss"
  by (induction cm ss ps m rule: broadcast.induct) (auto split: option.splits)

lemma broadcast_frame:
  "v < length ss \<Longrightarrow>
   owner (fst (broadcast cm ss ps m) ! v) = owner (ss ! v) \<and>
   readyState (fst (broadcast cm ss ps m) ! v) = readyState (ss ! v)"
  by (induction cm ss ps m rule: broadcast.induct) (auto split: option.splits)

lemma broadcast_conn_inv: "conn_inv cm ss \<Longrightarrow> conn_inv cm (fst (broadcast cm ss ps m))"
  by (rule conn_inv_sockets) (simp_all add: broadcast_frame)

lemma broadcast_received:
  "v < length ss \<Longrightarrow>
   received (fst (broadcast cm ss ps m) ! v) =
   received (ss ! v) @ (if readyState (ss ! v) = OPEN then replicate (sends_to cm ps v) m else [])"
proof (induction cm ss ps m rule: broadcast.induct)
  case (1 cm ss m)
  then show ?case by (simp add: sends_to_def reached_def)
next
  case (2 cm ss part ps m)
  show ?case
  proof (cases "lookup_conn cm (userId part)")
    case None
    then show ?thesis by (simp add: sends_to_def reached_def)
  next
    case (Some w)
    with "2.IH" [OF Some] "2.prems" show ?thesis
      by (auto simp: sends_to_def reached_def ws_send_nth replicate_app_Cons_same)
  qed
qed

lemma reached_all: "all_connected cm ps \<Longrightarrow> reached cm ps = ps"
  by (simp add: reached_def all_connected_def list_all_iff)

text \<open>
  With the registry invariant and distinct participants, the socket of a participant
  is the socket of no other participant: the loop sends to it exactly once.
\<close>

lemma sends_to_own_socket:
  assumes inv: "conn_inv cm ss" and dist: "distinct (map userId ps)"
    and all: "all_connected cm ps" and p: "p \<in> set ps"
    and w: "lookup_conn cm (userId p) = Some w"
  shows "sends_to cm ps w = 1"
proof -
  have "filter (\<lambda>q. lookup_conn cm (userId q) = Some w) ps = filter (\<lambda>q. userId q = userId p) ps"
  proof (rule filter_cong [OF refl])
    fix q
    show "(lookup_conn cm (userId q) = Some w) = (userId q = userId p)"
      using conn_inv_lookup [OF inv] w by metis
  qed
  with filter_same_key_single [OF dist p] all show ?thesis
    by (simp add: sends_to_def reached_all)
qed

lemma sends_to_other_socket:
  "\<forall>p\<in>set ps. lookup_conn cm (userId p) \<noteq> Some w \<Longrightarrow> sends_to cm ps w = 0"
  by (auto simp: sends_to_def reached_def filter_empty_conv dest: set_takeWhileD)

text \<open>
  When every participant has an open socket, each socket receives the notification once
  if it is the socket of some participant, and nothing otherwise.
\<close>

lemma broadcast_received_once:
  assumes inv: "conn_inv cm ss" and dist: "distinct (map userId ps)"
    and all: "all_connected cm ps" and w: "w < length ss"
    and opn: "\<And>p. p \<in> set ps \<Longrightarrow> lookup_conn cm (userId p) = Some w \<Longrightarrow> readyState (ss ! w) = OPEN"
  shows "received (fst (broadcast cm ss ps m) ! w) =
         received (ss ! w) @ (if \<exists>p\<in>set ps. lookup_conn cm (userId p) = Some w then [m] else [])"
proof (cases "\<exists>p\<in>set ps. lookup_conn cm (userId p) = Some w")
  case True
  then obtain p where p: "p \<in> set ps" "lookup_conn cm (userId p) = Some w" by blast
  have "sends_to cm ps w = 1" by (rule sends_to_own_socket [OF inv dist all p])
  with opn [OF p] True show ?thesis using broadcast_received [OF w] by simp
next
  case False
  then have "sends_to cm ps w = 0" by (intro sends_to_other_socket) blast
  with False show ?thesis using broadcast_received [OF w] by simp
qed

text \<open>
  C18. The notification loop stops at the first participant without a socket: the
  participants before it are notified, it throws, and the participants after it are not
  notified.
\<close>

theorem broadcast_stops_at_missing:
  "all_connected cm xs \<Longrightarrow> lookup_conn cm (userId p) = None \<Longrightarrow>
   broadcast cm ss (xs @ p # ys) m = (fst (broadcast cm ss xs m), Inl TypeError)"
  by (induction cm ss xs m rule: broadcast.induct) (auto simp: all_connected_def split: option.splits)

theorem broadcast_stops_at_missing_witness:
  "all_connected [(0, 0)] [\<lparr>userId = Some 0, cards = []\<rparr>] \<and>
   lookup_conn [(0, 0)] (userId \<lparr>userId = Some 2, cards = []\<rparr>) = None \<and>
   broadcast [(0, 0)] [\<lparr>owner = 0, readyState = OPEN, received = []\<rparr>]
     [\<lparr>userId = Some 0, cards = []\<rparr>, \<lparr>userId = Some 2, cards = []\<rparr>, \<lparr>userId = Some 0, cards = []\<rparr>] ''m'' =
   ([\<lparr>owner = 0, readyState = OPEN, received = [''m'']\<rparr>], Inl TypeError)"
proof -
  have a: "all_connected [(0, 0)] [\<lparr>userId = Some 0, cards = []\<rparr>]"
    and n: "lookup_conn [(0, 0)] (userId \<lparr>userId = Some 2, cards = []\<rparr>) = None"
    by (simp_all add: all_connected_def lookup_conn_def)
  have "broadcast [(0, 0)] [\<lparr>owner = 0, readyState = OPEN, received = []\<rparr>]
     ([\<lparr>userId = Some 0, cards = []\<rparr>] @ \<lparr>userId = Some 2, cards = []\<rparr> # [\<lparr>userId = Some 0, cards = []\<rparr>]) ''m'' =
     (fst (broadcast [(0, 0)] [\<lparr>owner = 0, readyState = OPEN, received = []\<rparr>] [\<lparr>userId = Some 0, cards = []\<rparr>] ''m''),
      Inl TypeError)"
    by (rule broadcast_stops_at_missing [OF a n])
  with a n show ?thesis by (simp add: lookup_conn_def ws_send_def)
qed

end
