(* ===== verification/Gateway.thy ===== *)
theory Gateway
  imports Identity Fanout
begin

text \<open>
  SessionGateway: the whole server of \<^verbatim>\<open>src/index.js\<close>. Its state \<open>srv\<close> holds
  the session store, \<^verbatim>\<open>gamePopulation\<close>, \<^verbatim>\<open>map\<close>, the sockets, the queue of
  \<^verbatim>\<open>session.destroy\<close> callbacks not yet run, and the supply of fresh ids behind
  \<^verbatim>\<open>uuid.v4()\<close>. Node runs one callback at a time, so each handler body between
  two asynchronous points is one atomic step: \<open>step\<close> runs one event, a request
  to a route or an event of the socket layer, and returns the reply.
\<close>

record srv =
  sessions :: session_store
  gamePopulation :: game_population
  conn_map :: conn_map
  sockets :: "sock list"
  destroy_queue :: "wsid option list"
  uuid_next :: nat

definition init_srv :: srv where
  "init_srv = \<lparr>sessions = [], gamePopulation = [], conn_map = [], sockets = [],
               destroy_queue = [], uuid_next = 0\<rparr>"

text \<open>\<^verbatim>\<open>uuid.v4()\<close>: an id never produced before.\<close>

definition uuid_v4 :: "srv \<Rightarrow> uuid \<times> srv" where
  "uuid_v4 s = (uuid_next s, s\<lparr>uuid_next := Suc (uuid_next s)\<rparr>)"

definition req_user :: "srv \<Rightarrow> sid \<Rightarrow> uuid option" where
  "req_user s sid = session_user (sessions s) sid"

text \<open>
  \<^verbatim>\<open>app.post('/login')\<close>, lines 31--42: the check of line 33 and the binding of
  line 40 are \<open>session_login\<close> of \<open>Identity\<close>, with the id \<^verbatim>\<open>uuid.v4()\<close>
  returns on line 38. The source calls \<^verbatim>\<open>uuid.v4()\<close> only after the check passed:
  the counter is pure, so the handler takes the candidate id first and keeps the
  state unchanged, counter included, when the login is refused.
\<close>

definition app_login :: "srv \<Rightarrow> sid \<Rightarrow> srv \<times> response" where
  "app_login s sid =
     (let (newid, s1) = uuid_v4 s
      in case session_login (sessions s) sid newid of
           Inl err \<Rightarrow> (s, Resp ''400'' (Text ''already logged in.''))
         | Inr ss' \<Rightarrow> (s1\<lparr>sessions := ss'\<rparr>, Resp ''OK'' (Text ''Session created'')))"

text \<open>\<^verbatim>\<open>app.post('/game/create')\<close>, lines 45--51: no check of the session.\<close>

definition app_create_game :: "srv \<Rightarrow> sid \<Rightarrow> srv \<times> response" where
  "app_create_game s sid =
     (let (newid, s1) = uuid_v4 s
      in (s1\<lparr>gamePopulation := create_game (gamePopulation s1) newid\<rparr>,
          Resp ''OK'' (GameCreated newid)))"

text \<open>
  \<^verbatim>\<open>app.post('/game/:gameId/draw')\<close>, lines 54--79: the card is pushed before the
  notification loop, so a \<^verbatim>\<open>TypeError\<close> of the loop leaves the card drawn and
  the reply is the error of Express.
\<close>

definition app_draw :: "srv \<Rightarrow> sid \<Rightarrow> uuid \<Rightarrow> srv \<times> response" where
  "app_draw s sid gameId =
     (case draw_card (gamePopulation s) gameId (req_user s sid) of
        Inl e \<Rightarrow> (s, Resp ''400'' (Text ''game does not exist or you are not in that game.''))
      | Inr (gp', participants) \<Rightarrow>
          (let s1 = s\<lparr>gamePopulation := gp'\<rparr>;
               (ss', r) = broadcast (conn_map s1) (sockets s1) participants ''someone got a card''
           in (s1\<lparr>sockets := ss'\<rparr>,
               case r of Inl err \<Rightarrow> InternalError
                       | Inr ok \<Rightarrow> Resp ''OK'' (Text ''card drawn''))))"

text \<open>\<^verbatim>\<open>app.post('/game/:gameId/join')\<close>, lines 81--112.\<close>

definition app_join :: "srv \<Rightarrow> sid \<Rightarrow> uuid \<Rightarrow> srv \<times> response" where
  "app_join s sid gameId =
     (case join_game (gamePopulation s) gameId (req_user s sid) of
        Inl e \<Rightarrow>
          (s, Resp ''400'' (Text (if e = GameNotFound then ''game does not exist.''
                                 else ''you can only be in 1 game.'')))
      | Inr gp' \<Rightarrow> (s\<lparr>gamePopulation := gp'\<rparr>, Resp ''OK'' (Text ''game joined'')))"

text \<open>
  \<^verbatim>\<open>app.delete('/logout')\<close>, lines 115--125, first part: the socket of the user is
  read from \<^verbatim>\<open>map\<close>, the store forgets the session, and the callback of
  \<^verbatim>\<open>destroy\<close> is queued with the socket it captured. The reply is sent by the
  callback.
\<close>

definition app_logout :: "srv \<Rightarrow> sid \<Rightarrow> srv \<times> response" where
  "app_logout s sid =
     (let ws = lookup_conn (conn_map s) (req_user s sid)
      in (s\<lparr>sessions := session_destroy (sessions s) sid,
            destroy_queue := destroy_queue s @ [ws]\<rparr>, Pending))"

text \<open>The callback of \<^verbatim>\<open>request.session.destroy\<close>, lines 119--124.\<close>

definition destroy_callback :: "srv \<Rightarrow> srv \<times> response" where
  "destroy_callback s =
     (case destroy_queue s of
        [] \<Rightarrow> (s, NoResponse)
      | ws # q \<Rightarrow>
          (s\<lparr>destroy_queue := q,
             sockets := (case ws of None \<Rightarrow> sockets s | Some w \<Rightarrow> ws_close (sockets s) w)\<rparr>,
           Resp ''OK'' (Text ''Session destroyed'')))"

text \<open>
  \<^verbatim>\<open>server.on('upgrade')\<close> with \<^verbatim>\<open>wss.handleUpgrade\<close> and the
  \<^verbatim>\<open>connection\<close> handler, lines 133--155: a request without a user id has its
  socket destroyed; otherwise the new socket is registered under the user id.
\<close>

definition upgrade :: "srv \<Rightarrow> sid \<Rightarrow> srv \<times> response" where
  "upgrade s sid =
     (case req_user s sid of
        None \<Rightarrow> (s, SocketDestroyed)
      | Some uid \<Rightarrow>
          (let (cm', ss', ws) = on_connection (conn_map s) (sockets s) uid
           in (s\<lparr>conn_map := cm', sockets := ss'\<rparr>, Upgraded ws)))"

text \<open>\<^verbatim>\<open>ws.on('close')\<close>, lines 178--180, when socket \<open>w\<close> closes.\<close>

definition ws_closed :: "srv \<Rightarrow> wsid \<Rightarrow> srv \<times> response" where
  "ws_closed s w =
     (let (cm', ss') = on_close (conn_map s) (sockets s) w
      in (s\<lparr>conn_map := cm', sockets := ss'\<rparr>, NoResponse))"

datatype event =
    Login sid
  | CreateGame sid
  | Draw sid uuid
  | Join sid uuid
  | Logout sid
  | DestroyDone
  | Upgrade sid
  | WsMessage wsid string
  | WsClose wsid
  | SessionExpire sid

text \<open>
  One event. An inbound socket message is only logged (lines 156--176). The expiry of
  a session after the cookie's \<^verbatim>\<open>maxAge\<close> removes it from the store.
\<close>

fun step :: "srv \<Rightarrow> event \<Rightarrow> srv \<times> response" where
  "step s (Login sid) = app_login s sid"
| "step s (CreateGame sid) = app_create_game s sid"
| "step s (Draw sid g) = app_draw s sid g"
| "step s (Join sid g) = app_join s sid g"
| "step s (Logout sid) = app_logout s sid"
| "step s DestroyDone = destroy_callback s"
| "step s (Upgrade sid) = upgrade s sid"
| "step s (WsMessage w m) = (s, NoResponse)"
| "step s (WsClose w) = ws_closed s w"
| "step s (SessionExpire sid) = (s\<lparr>sessions := session_destroy (sessions s) sid\<rparr>, NoResponse)"

fun run :: "srv \<Rightarrow> event list \<Rightarrow> srv" where
  "run s [] = s"
| "run s (e # es) = run (fst (step s e)) es"

inductive reachable :: "srv \<Rightarrow> bool" where
  init: "reachable init_srv"
| step: "reachable s \<Longrightarrow> reachable (fst (step s e))"

text \<open>
  Every id in the state came from \<^verbatim>\<open>uuid.v4()\<close> earlier: it is below the counter
  of the id supply.
\<close>

definition fresh_inv :: "srv \<Rightarrow> bool" where
  "fresh_inv s \<longleftrightarrow>
     (\<forall>u\<in>snd ` set (sessions s). u < uuid_next s) \<and>
     (\<forall>g\<in>fst ` set (gamePopulation s). g < uuid_next s) \<and>
     (\<forall>x. Some x \<in> set (members (gamePopulation s)) \<longrightarrow> x < uuid_next s) \<and>
     (\<forall>w<length (sockets s). owner (sockets s ! w) < uuid_next s)"

definition srv_inv :: "srv \<Rightarrow> bool" where
  "srv_inv s \<longleftrightarrow>
     games_inv (gamePopulation s) \<and> conn_inv (conn_map s) (sockets s) \<and>
     distinct (map fst (sessions s)) \<and> fresh_inv s"

declare app_login_def [model_defs] app_create_game_def [model_defs] app_draw_def [model_defs]
  app_join_def [model_defs] app_logout_def [model_defs] destroy_callback_def [model_defs]
  upgrade_def [model_defs] ws_closed_def [model_defs] uuid_v4_def [model_defs]
  req_user_def [model_defs] init_srv_def [model_defs]

lemma app_login_eq:
  "app_login s sid =
     (if req_user s sid \<noteq> None then (s, Resp ''400'' (Text ''already logged in.''))
      else
        (let (newid, s1) = uuid_v4 s
         in (s1\<lparr>sessions := AList.update sid newid (sessions s1)\<rparr>,
             Resp ''OK'' (Text ''Session created''))))"
  by (simp add: app_login_def session_login_def req_user_def uuid_v4_def)

lemma srv_inv_init: "srv_inv init_srv"
  by (simp add: srv_inv_def fresh_inv_def init_srv_def games_inv_def members_def conn_inv_def)

lemma reachable_run: "reachable s \<Longrightarrow> reachable (run s es)"
  by (induction es arbitrary: s) (auto intro: reachable.step)

lemma req_user_fresh: "fresh_inv s \<Longrightarrow> req_user s sid = Some x \<Longrightarrow> x < uuid_next s"
  by (force simp: fresh_inv_def req_user_def dest!: session_user_Some_mem)

lemma app_login_inv: "srv_inv s \<Longrightarrow> srv_inv (fst (app_login s sid))"
  by (auto simp: app_login_eq uuid_v4_def srv_inv_def fresh_inv_def distinct_update
      dest!: set_update_sub)

lemma app_create_game_inv: "srv_inv s \<Longrightarrow> srv_inv (fst (app_create_game s sid))"
  using create_game_members
  by (fastforce simp: app_create_game_def uuid_v4_def srv_inv_def fresh_inv_def create_game_inv
      create_game_keys)

lemma app_join_inv: "srv_inv s \<Longrightarrow> srv_inv (fst (app_join s sid g))"
proof -
  assume inv: "srv_inv s"
  show ?thesis
  proof (cases "join_game (gamePopulation s) g (req_user s sid)")
    case (Inl e)
    with inv show ?thesis by (simp add: app_join_def)
  next
    case (Inr gp')
    with inv have "games_inv gp'" by (auto simp: srv_inv_def intro: join_game_inv)
    moreover from Inr have "fst ` set gp' = fst ` set (gamePopulation s)"
      and "set (members gp') = insert (req_user s sid) (set (members (gamePopulation s)))"
      by (simp_all add: join_game_keys join_game_members)
    moreover from inv have "\<And>x. req_user s sid = Some x \<Longrightarrow> x < uuid_next s"
      by (auto simp: srv_inv_def intro: req_user_fresh)
    ultimately show ?thesis using inv Inr
      by (auto simp: app_join_def srv_inv_def fresh_inv_def)
  qed
qed

lemma app_draw_inv: "srv_inv s \<Longrightarrow> srv_inv (fst (app_draw s sid g))"
proof -
  assume inv: "srv_inv s"
  show ?thesis
  proof (cases "draw_card (gamePopulation s) g (req_user s sid)")
    case (Inl e)
    with inv show ?thesis by (simp add: app_draw_def)
  next
    case (Inr r)
    obtain gp' ps' where r: "r = (gp', ps')" by fastforce
    let ?b = "broadcast (conn_map s) (sockets s) ps' ''someone got a card''"
    from inv Inr r have "games_inv gp'" by (auto simp: srv_inv_def intro: draw_card_inv)
    moreover from Inr r have "fst ` set gp' = fst ` set (gamePopulation s)"
      and "members gp' = members (gamePopulation s)"
      by (simp_all add: draw_card_keys draw_card_members)
    moreover from inv have "conn_inv (conn_map s) (fst ?b)"
      by (simp add: srv_inv_def broadcast_conn_inv)
    moreover have "fst (app_draw s sid g) = s\<lparr>gamePopulation := gp', sockets := fst ?b\<rparr>"
      using Inr r by (simp add: app_draw_def split: prod.splits)
    ultimately show ?thesis using inv
      by (auto simp: srv_inv_def fresh_inv_def broadcast_frame)
  qed
qed

lemma app_logout_inv: "srv_inv s \<Longrightarrow> srv_inv (fst (app_logout s sid))"
  using session_values_destroy
  by (fastforce simp: app_logout_def srv_inv_def fresh_inv_def session_destroy_def distinct_delete)

lemma destroy_callback_inv: "srv_inv s \<Longrightarrow> srv_inv (fst (destroy_callback s))"
  by (auto simp: destroy_callback_def srv_inv_def fresh_inv_def ws_close_conn_inv ws_close_nth
      split: list.splits option.splits)

lemma upgrade_inv: "srv_inv s \<Longrightarrow> srv_inv (fst (upgrade s sid))"
proof -
  assume inv: "srv_inv s"
  show ?thesis
  proof (cases "req_user s sid")
    case None
    with inv show ?thesis by (simp add: upgrade_def)
  next
    case (Some x)
    obtain cm' ss' w where c: "on_connection (conn_map s) (sockets s) x = (cm', ss', w)"
      by (cases "on_connection (conn_map s) (sockets s) x") auto
    from inv Some have "x < uuid_next s" by (auto simp: srv_inv_def intro: req_user_fresh)
    moreover from inv c have "conn_inv cm' ss'" by (auto simp: srv_inv_def intro: on_connection_conn_inv)
    moreover from c have "ss' = sockets s @ [\<lparr>owner = x, readyState = OPEN, received = []\<rparr>]"
      by (simp add: on_connection_def Let_def)
    ultimately show ?thesis using inv Some c
      by (auto simp: upgrade_def srv_inv_def fresh_inv_def nth_append)
  qed
qed

lemma ws_closed_inv: "srv_inv s \<Longrightarrow> srv_inv (fst (ws_closed s w))"
proof -
  assume inv: "srv_inv s"
  obtain cm' ss' where c: "on_close (conn_map s) (sockets s) w = (cm', ss')"
    by fastforce
  from inv c have "conn_inv cm' ss'" by (auto simp: srv_inv_def intro: on_close_conn_inv)
  moreover from c have "length ss' = length (sockets s)"
    and "\<And>v. v < length ss' \<Longrightarrow> owner (ss' ! v) = owner (sockets s ! v)"
    by (auto simp: on_close_def nth_list_update split: if_splits)
  ultimately show ?thesis using inv c
    by (auto simp: ws_closed_def srv_inv_def fresh_inv_def)
qed

lemma app_draw_Inr:
  "draw_card (gamePopulation s) g (req_user s sid) = Inr (gp', ps') \<Longrightarrow>
   app_draw s sid g =
     (s\<lparr>gamePopulation := gp',
        sockets := fst (broadcast (conn_map s) (sockets s) ps' ''someone got a card'')\<rparr>,
      if all_connected (conn_map s) ps' then Resp ''OK'' (Text ''card drawn'') else InternalError)"
proof -
  assume d: "draw_card (gamePopulation s) g (req_user s sid) = Inr (gp', ps')"
  obtain ss' r where b: "broadcast (conn_map s) (sockets s) ps' ''someone got a card'' = (ss', r)"
    by fastforce
  then have r: "r = (if all_connected (conn_map s) ps' then Inr () else Inl TypeError)"
    using broadcast_result [of "conn_map s" "sockets s" ps' "''someone got a card''"] by simp
  show ?thesis
    using d b r by (cases "all_connected (conn_map s) ps'") (simp_all add: app_draw_def)
qed

text \<open>
  A draw by a participant when every participant has an open socket: the card is pushed,
  each participant's socket receives the notification once, no other socket receives
  anything, and the reply is \<open>card drawn\<close>.
\<close>

lemma draw_connected:
  assumes inv: "srv_inv s" and game: "map_of (gamePopulation s) g = Some ps"
    and member: "req_user s sid \<in> userId ` set ps"
    and conn: "\<forall>p\<in>set ps. \<exists>w. lookup_conn (conn_map s) (userId p) = Some w \<and> readyState (sockets s ! w) = OPEN"
  shows "step s (Draw sid g) =
           (s\<lparr>gamePopulation := AList.update g (push_card (req_user s sid) ps) (gamePopulation s),
              sockets := fst (broadcast (conn_map s) (sockets s) (push_card (req_user s sid) ps)
                                ''someone got a card'')\<rparr>,
            Resp ''OK'' (Text ''card drawn''))"
    and "w < length (sockets s) \<Longrightarrow>
         received (fst (broadcast (conn_map s) (sockets s) (push_card (req_user s sid) ps)
                          ''someone got a card'') ! w) =
         received (sockets s ! w) @
           (if \<exists>p\<in>set ps. lookup_conn (conn_map s) (userId p) = Some w
            then [''someone got a card''] else [])"
proof -
  let ?u = "req_user s sid" and ?cm = "conn_map s" and ?ss = "sockets s"
  let ?ps' = "push_card ?u ps"
  from inv have ci: "conn_inv ?cm ?ss" and gi: "games_inv (gamePopulation s)"
    by (simp_all add: srv_inv_def)
  have d: "draw_card (gamePopulation s) g ?u = Inr (AList.update g ?ps' (gamePopulation s), ?ps')"
    using game member by (simp add: draw_card_Inr)
  have dist: "distinct (map userId ?ps')"
    using games_inv_game_ids [OF gi game] by (simp add: push_card_userIds)
  have "\<not> (\<exists>p\<in>set ps. lookup_conn ?cm (userId p) = None)" using conn by force
  then have "\<not> (\<exists>p\<in>set ?ps'. lookup_conn ?cm (userId p) = None)"
    by (simp only: push_card_ex_userId [where P = "\<lambda>u. lookup_conn ?cm u = None"] not_False_eq_True)
  then have all: "all_connected ?cm ?ps'" by (simp add: all_connected_def list_all_iff)
  show "step s (Draw sid g) =
           (s\<lparr>gamePopulation := AList.update g ?ps' (gamePopulation s),
              sockets := fst (broadcast ?cm ?ss ?ps' ''someone got a card'')\<rparr>,
            Resp ''OK'' (Text ''card drawn''))"
    using app_draw_Inr [OF d] all by simp
  assume w: "w < length ?ss"
  have "readyState (?ss ! w) = OPEN"
    if "p \<in> set ?ps'" "lookup_conn ?cm (userId p) = Some w" for p
  proof -
    from that have "\<exists>q\<in>set ps. lookup_conn ?cm (userId q) = Some w"
      using push_card_ex_userId [where P = "\<lambda>u. lookup_conn ?cm u = Some w"] by blast
    then obtain q where "q \<in> set ps" "lookup_conn ?cm (userId q) = Some w" by blast
    with conn show ?thesis by force
  qed
  from broadcast_received_once [OF ci dist all w this] show "received (fst (broadcast ?cm ?ss ?ps'
      ''someone got a card'') ! w) = received (?ss ! w) @
      (if \<exists>p\<in>set ps. lookup_conn ?cm (userId p) = Some w then [''someone got a card''] else [])"
    by (simp only: push_card_ex_userId [where P = "\<lambda>u. lookup_conn ?cm u = Some w"])
qed

lemma step_inv: "srv_inv s \<Longrightarrow> srv_inv (fst (step s e))"
proof (cases e)
  case (SessionExpire sid)
  assume "srv_inv s"
  with SessionExpire show ?thesis
    using session_values_destroy
    by (fastforce simp: srv_inv_def fresh_inv_def session_destroy_def distinct_delete)
qed (simp_all add: app_login_inv app_create_game_inv app_draw_inv app_join_inv app_logout_inv
       destroy_callback_inv upgrade_inv ws_closed_inv)

lemma step_uuid_mono: "uuid_next s \<le> uuid_next (fst (step s e))"
  by (cases e) (simp_all add: model_defs Let_def split: sum.splits prod.splits list.splits option.splits)

lemma app_login_ok:
  "snd (app_login s sid) = Resp ''OK'' (Text ''Session created'') \<Longrightarrow>
   req_user (fst (app_login s sid)) sid = Some (uuid_next s)"
  by (auto simp: app_login_eq uuid_v4_def req_user_def session_user_def map_of_update_eq
      split: if_splits)

lemma sessions_untouched:
  "sessions (fst (app_create_game s sid)) = sessions s"
  "sessions (fst (app_join s sid g)) = sessions s"
  "sessions (fst (app_draw s sid g)) = sessions s"
  "sessions (fst (upgrade s sid)) = sessions s"
  by (simp_all add: app_create_game_def uuid_v4_def app_join_def app_draw_def upgrade_def Let_def
      split: sum.splits prod.splits option.splits)

lemma reachable_srv_inv: "reachable s \<Longrightarrow> srv_inv s"
  by (induction rule: reachable.induct) (simp_all add: srv_inv_init step_inv)

end
