(* ===== verification/Async.thy ===== *)
theory Async
  imports Gateway
begin

text \<open>
  Session loading middleware: \<^verbatim>\<open>sessionParser\<close> (\<^verbatim>\<open>src/index.js\<close> lines 16--24,
  installed by \<^verbatim>\<open>app.use(sessionParser)\<close> on line 27 and called by the upgrade
  handler on line 136). For every request the middleware reads the session from the
  store when the request arrives (\<^verbatim>\<open>MemoryStore.get\<close> copies it at once) and hands
  the copy to the handler in a deferred callback; the HTTP handlers run later still, once
  \<^verbatim>\<open>body-parser\<close> has read the body. The handler sees \<^verbatim>\<open>req.session\<close>, the
  copy. When an HTTP handler replies, \<^verbatim>\<open>resave: true\<close> makes the middleware write
  the copy back to the store; a destroyed session is not written back, and the upgrade
  handler, called with \<^verbatim>\<open>{}\<close> as response, never replies through the middleware.

  The model: an arriving request records the user id of its session at that moment
  (\<open>Arrive\<close>); any loaded request may run later (\<open>Run i\<close>), in any order, since
  body parsing finishes in I/O order; \<open>run_loaded\<close> runs the handler of
  \<open>Gateway\<close> on the state whose store holds the copy for that session, and keeps the
  written-back store (or the store as it was, for the upgrade). Socket events and the
  \<^verbatim>\<open>session.destroy\<close> callback are the events of \<open>Gateway\<close>.
\<close>

datatype request =
    ReqLogin sid
  | ReqCreateGame sid
  | ReqDraw sid uuid
  | ReqJoin sid uuid
  | ReqLogout sid
  | ReqUpgrade sid

fun req_sid :: "request \<Rightarrow> sid" where
  "req_sid (ReqLogin sid) = sid"
| "req_sid (ReqCreateGame sid) = sid"
| "req_sid (ReqDraw sid g) = sid"
| "req_sid (ReqJoin sid g) = sid"
| "req_sid (ReqLogout sid) = sid"
| "req_sid (ReqUpgrade sid) = sid"

text \<open>The route or socket handler a request reaches (lines 31--154).\<close>

fun handle :: "srv \<Rightarrow> request \<Rightarrow> srv \<times> response" where
  "handle s (ReqLogin sid) = app_login s sid"
| "handle s (ReqCreateGame sid) = app_create_game s sid"
| "handle s (ReqDraw sid g) = app_draw s sid g"
| "handle s (ReqJoin sid g) = app_join s sid g"
| "handle s (ReqLogout sid) = app_logout s sid"
| "handle s (ReqUpgrade sid) = upgrade s sid"

text \<open>Whether the middleware writes \<^verbatim>\<open>req.session\<close> back when the handler ends.\<close>

fun saves_session :: "request \<Rightarrow> bool" where
  "saves_session (ReqUpgrade sid) = False"
| "saves_session r = True"

text \<open>The store as the handler sees it: the session holds the copy read on arrival.\<close>

definition load_session :: "session_store \<Rightarrow> sid \<Rightarrow> uuid option \<Rightarrow> session_store" where
  "load_session ss sid u =
     (case u of None \<Rightarrow> session_destroy ss sid | Some x \<Rightarrow> AList.update sid x ss)"

definition run_loaded :: "srv \<Rightarrow> request \<Rightarrow> uuid option \<Rightarrow> srv \<times> response" where
  "run_loaded s r u =
     (let (s', resp) = handle (s\<lparr>sessions := load_session (sessions s) (req_sid r) u\<rparr>) r
      in (if saves_session r then s' else s'\<lparr>sessions := sessions s\<rparr>, resp))"

record asrv =
  server :: srv
  loaded :: "(request \<times> uuid option) list"

definition init_asrv :: asrv where
  "init_asrv = \<lparr>server = init_srv, loaded = []\<rparr>"

text \<open>The events that do not pass through the session middleware.\<close>

datatype other_event =
    ODestroyDone
  | OWsMessage wsid string
  | OWsClose wsid
  | OSessionExpire sid

fun other_step :: "other_event \<Rightarrow> event" where
  "other_step ODestroyDone = DestroyDone"
| "other_step (OWsMessage w m) = WsMessage w m"
| "other_step (OWsClose w) = WsClose w"
| "other_step (OSessionExpire sid) = SessionExpire sid"

datatype aevent = Arrive request | Run nat | Other other_event

fun astep :: "asrv \<Rightarrow> aevent \<Rightarrow> asrv \<times> response" where
  "astep a (Arrive r) =
     (a\<lparr>loaded := loaded a @ [(r, req_user (server a) (req_sid r))]\<rparr>, Pending)"
| "astep a (Run i) =
     (if i < length (loaded a)
      then (let (r, u) = loaded a ! i;
                (s', resp) = run_loaded (server a) r u
            in (a\<lparr>server := s', loaded := take i (loaded a) @ drop (Suc i) (loaded a)\<rparr>, resp))
      else (a, NoResponse))"
| "astep a (Other e) =
     (let (s', resp) = step (server a) (other_step e) in (a\<lparr>server := s'\<rparr>, resp))"

fun arun :: "asrv \<Rightarrow> aevent list \<Rightarrow> asrv" where
  "arun a [] = a"
| "arun a (e # es) = arun (fst (astep a e)) es"

inductive areachable :: "asrv \<Rightarrow> bool" where
  init: "areachable init_asrv"
| step: "areachable a \<Longrightarrow> areachable (fst (astep a e))"

text \<open>The atomic event of \<open>Gateway\<close> that a request is when it runs at once.\<close>

fun req_event :: "request \<Rightarrow> event" where
  "req_event (ReqLogin sid) = Login sid"
| "req_event (ReqCreateGame sid) = CreateGame sid"
| "req_event (ReqDraw sid g) = Draw sid g"
| "req_event (ReqJoin sid g) = Join sid g"
| "req_event (ReqLogout sid) = Logout sid"
| "req_event (ReqUpgrade sid) = Upgrade sid"

definition async_inv :: "asrv \<Rightarrow> bool" where
  "async_inv a \<longleftrightarrow>
     srv_inv (server a) \<and>
     (\<forall>(r, u)\<in>set (loaded a). \<forall>x. u = Some x \<longrightarrow> x < uuid_next (server a))"

text \<open>
  Concrete interleavings: a logged-in session (user id 0 in session 1), and the three
  races of the middleware started from it or from the initial state.
\<close>

definition async_logged_in :: asrv where
  "async_logged_in = arun init_asrv [Arrive (ReqLogin 1), Run 0]"

definition async_resurrect :: asrv where
  "async_resurrect =
     arun async_logged_in [Arrive (ReqCreateGame 1), Arrive (ReqLogout 1), Run 1, Other ODestroyDone]"

definition async_two_logins :: asrv where
  "async_two_logins = arun init_asrv [Arrive (ReqLogin 1), Arrive (ReqLogin 1)]"

definition async_upgrade_race :: asrv where
  "async_upgrade_race =
     arun async_logged_in [Arrive (ReqLogout 1), Arrive (ReqUpgrade 1), Run 0, Other ODestroyDone]"

declare load_session_def [model_defs] run_loaded_def [model_defs] init_asrv_def [model_defs]

lemma load_current: "load_session ss sid (session_user ss sid) = ss"
proof (cases "map_of ss sid")
  case None
  then have "sid \<notin> fst ` set ss" by (simp add: map_of_eq_None_iff)
  with None show ?thesis
    by (simp add: load_session_def session_user_def session_destroy_def delete_id)
next
  case (Some x)
  then show ?thesis by (simp add: load_session_def session_user_def update_triv)
qed

lemma handle_step: "handle s r = step s (req_event r)"
  by (cases r) simp_all

lemma run_loaded_current: "run_loaded s r (req_user s (req_sid r)) = step s (req_event r)"
proof -
  have l: "s\<lparr>sessions := load_session (sessions s) (req_sid r) (req_user s (req_sid r))\<rparr> = s"
    by (simp add: req_user_def load_current)
  show ?thesis
  proof (cases r)
    case (ReqUpgrade sid)
    obtain s' resp where u: "upgrade s sid = (s', resp)" by fastforce
    then have "sessions s = sessions s'" using sessions_untouched(4) [of s sid] by simp
    with ReqUpgrade u l show ?thesis by (simp add: run_loaded_def)
  qed (use l in \<open>simp_all add: run_loaded_def split: prod.splits\<close>)
qed

lemma load_session_inv:
  "srv_inv s \<Longrightarrow> (\<forall>x. u = Some x \<longrightarrow> x < uuid_next s) \<Longrightarrow>
   srv_inv (s\<lparr>sessions := load_session (sessions s) sid u\<rparr>)"
  by (cases u)
     (auto simp: srv_inv_def fresh_inv_def load_session_def session_destroy_def distinct_update
       distinct_delete dest!: set_update_sub set_delete_sub)

lemma run_loaded_inv:
  assumes inv: "srv_inv s" and u: "\<forall>x. u = Some x \<longrightarrow> x < uuid_next s"
  shows "srv_inv (fst (run_loaded s r u)) \<and> uuid_next s \<le> uuid_next (fst (run_loaded s r u))"
proof -
  let ?s1 = "s\<lparr>sessions := load_session (sessions s) (req_sid r) u\<rparr>"
  obtain s' resp where h: "handle ?s1 r = (s', resp)" by fastforce
  have i1: "srv_inv ?s1" using load_session_inv [OF inv u] .
  have i2: "srv_inv s'" using step_inv [OF i1, of "req_event r"] h by (simp add: handle_step)
  have m: "uuid_next s \<le> uuid_next s'" using step_uuid_mono [of ?s1 "req_event r"] h
    by (simp add: handle_step)
  have "srv_inv (s'\<lparr>sessions := sessions s\<rparr>)"
    using i2 inv m by (force simp: srv_inv_def fresh_inv_def)
  then show ?thesis using i2 m h by (simp add: run_loaded_def)
qed

lemma snapshots_fresh:
  "async_inv a \<Longrightarrow> (r, u) \<in> set (loaded a) \<Longrightarrow> uuid_next (server a) \<le> n \<Longrightarrow>
   \<forall>x. u = Some x \<longrightarrow> x < n"
  unfolding async_inv_def by fastforce

lemma astep_inv: "async_inv a \<Longrightarrow> async_inv (fst (astep a e))"
proof (cases e)
  case (Arrive r)
  assume ai: "async_inv a"
  then have "fresh_inv (server a)" by (simp add: async_inv_def srv_inv_def)
  then have "\<forall>x. req_user (server a) (req_sid r) = Some x \<longrightarrow> x < uuid_next (server a)"
    by (blast intro: req_user_fresh)
  with ai Arrive show ?thesis by (simp add: async_inv_def)
next
  case (Run i)
  assume ai: "async_inv a"
  show ?thesis
  proof (cases "i < length (loaded a)")
    case True
    obtain r u where ru: "loaded a ! i = (r, u)" by fastforce
    obtain s' resp where h: "run_loaded (server a) r u = (s', resp)" by fastforce
    let ?rest = "take i (loaded a) @ drop (Suc i) (loaded a)"
    from True ru have "(r, u) \<in> set (loaded a)" by (metis nth_mem)
    with ai have "srv_inv s' \<and> uuid_next (server a) \<le> uuid_next s'"
      using run_loaded_inv [of "server a" u r] h snapshots_fresh [of a r u]
      by (simp add: async_inv_def)
    moreover have "set ?rest \<subseteq> set (loaded a)"
      by (auto dest: in_set_takeD in_set_dropD)
    ultimately have "async_inv (a\<lparr>server := s', loaded := ?rest\<rparr>)"
      using ai snapshots_fresh [of a] unfolding async_inv_def by fastforce
    with Run True ru h show ?thesis by simp
  next
    case False
    with ai Run show ?thesis by simp
  qed
next
  case (Other e')
  assume ai: "async_inv a"
  obtain s' resp where h: "step (server a) (other_step e') = (s', resp)" by fastforce
  with ai have "srv_inv s' \<and> uuid_next (server a) \<le> uuid_next s'"
    using step_inv [of "server a" "other_step e'"] step_uuid_mono [of "server a" "other_step e'"]
    by (simp add: async_inv_def)
  then have "async_inv (a\<lparr>server := s'\<rparr>)"
    using ai snapshots_fresh [of a] unfolding async_inv_def by fastforce
  with Other h show ?thesis by simp
qed

lemma areachable_inv: "areachable a \<Longrightarrow> async_inv a"
  by (induction rule: areachable.induct)
     (simp add: async_inv_def init_asrv_def srv_inv_init, erule astep_inv)

lemma areachable_arun: "areachable a \<Longrightarrow> areachable (arun a es)"
  by (induction es arbitrary: a) (auto intro: areachable.step)

lemma async_logged_in_eq:
  "async_logged_in =
     \<lparr>server = \<lparr>sessions = [(1, 0)], gamePopulation = [], conn_map = [], sockets = [],
        destroy_queue = [], uuid_next = 1\<rparr>, loaded = []\<rparr>"
  by (simp add: async_logged_in_def model_defs Let_def)

lemma run_loaded_keeps_snapshot:
  assumes "saves_session r" and "r \<noteq> ReqLogout (req_sid r)"
  shows "session_user (sessions (fst (run_loaded s r (Some u)))) (req_sid r) = Some u"
proof -
  let ?s1 = "s\<lparr>sessions := load_session (sessions s) (req_sid r) (Some u)\<rparr>"
  have l: "session_user (sessions ?s1) (req_sid r) = Some u"
    by (simp add: load_session_def session_user_def js_map_simps)
  have "sessions (fst (handle ?s1 r)) = sessions ?s1"
    using assms l sessions_untouched [of ?s1]
    by (cases r) (simp_all add: app_login_eq req_user_def)
  with l assms(1) show ?thesis by (simp add: run_loaded_def split: prod.splits)
qed

text \<open>
  C25. Under every interleaving of arrivals, deferred handlers and socket events, the
  game registry keeps single-game membership and unique game ids, and every entry of
  \<^verbatim>\<open>map\<close> names a live socket of its user.
\<close>

theorem interleaving_keeps_invariants:
  "areachable a \<Longrightarrow>
   games_inv (gamePopulation (server a)) \<and> conn_inv (conn_map (server a)) (sockets (server a))"
  by (drule areachable_inv) (simp add: async_inv_def srv_inv_def)

theorem interleaving_keeps_invariants_witness:
  "areachable async_upgrade_race \<and>
   games_inv (gamePopulation (server async_upgrade_race)) \<and>
   conn_inv (conn_map (server async_upgrade_race)) (sockets (server async_upgrade_race))"
proof -
  have r: "areachable async_upgrade_race"
    unfolding async_upgrade_race_def async_logged_in_def
    by (intro areachable_arun areachable.init)
  show ?thesis using interleaving_keeps_invariants [OF r] r by simp
qed

text \<open>
  C26. A request whose session was logged in as \<open>u\<close> when it arrived writes
  that login back when it runs (\<^verbatim>\<open>resave: true\<close>), whatever ran in between:
  a logout, or the expiry of the session, is undone by any other HTTP request of the
  session loaded before it.
\<close>

theorem stale_session_written_back:
  assumes "i < length (loaded a)" and "loaded a ! i = (r, Some u)"
    and "saves_session r" and "r \<noteq> ReqLogout (req_sid r)"
  shows "req_user (server (fst (astep a (Run i)))) (req_sid r) = Some u"
proof -
  obtain s' resp where h: "run_loaded (server a) r (Some u) = (s', resp)" by fastforce
  then have "session_user (sessions s') (req_sid r) = Some u"
    using run_loaded_keeps_snapshot [OF assms(3,4), of "server a" u] by simp
  with assms(1,2) h show ?thesis by (simp add: req_user_def)
qed

theorem stale_session_written_back_witness:
  "0 < length (loaded async_resurrect) \<and>
   loaded async_resurrect ! 0 = (ReqCreateGame 1, Some 0) \<and>
   saves_session (ReqCreateGame 1) \<and> ReqCreateGame 1 \<noteq> ReqLogout (req_sid (ReqCreateGame 1)) \<and>
   req_user (server async_resurrect) 1 = None \<and>
   req_user (server (fst (astep async_resurrect (Run 0)))) (req_sid (ReqCreateGame 1)) = Some 0"
proof -
  have l: "loaded async_resurrect = [(ReqCreateGame 1, Some 0)]"
    and u: "req_user (server async_resurrect) 1 = None"
    by (simp_all add: async_resurrect_def async_logged_in_eq model_defs Let_def)
  show ?thesis
    using stale_session_written_back [of 0 async_resurrect "ReqCreateGame 1" 0] l u by simp
qed

text \<open>
  C27. Lost login: a login whose session was anonymous when it arrived succeeds when
  it runs, whatever the session holds by then. It replies \<open>Session created\<close>, issues
  a fresh id and rebinds the session to it, so the identity of an earlier login of the
  same session that ran in between is silently replaced; in the atomic model a second
  login is refused (C13).
\<close>

theorem loaded_anonymous_login_rebinds:
  assumes "i < length (loaded a)" and "loaded a ! i = (ReqLogin sid, None)"
  shows "snd (astep a (Run i)) = Resp ''OK'' (Text ''Session created'') \<and>
    req_user (server (fst (astep a (Run i)))) sid = Some (uuid_next (server a)) \<and>
    uuid_next (server (fst (astep a (Run i)))) = Suc (uuid_next (server a))"
  using assms
  by (simp add: run_loaded_def load_session_def app_login_eq uuid_v4_def req_user_def
      session_user_def session_destroy_def map_of_update_eq map_of_delete_eq)

theorem loaded_anonymous_login_rebinds_witness:
  "0 < length (loaded (fst (astep async_two_logins (Run 0)))) \<and>
   loaded (fst (astep async_two_logins (Run 0))) ! 0 = (ReqLogin 1, None) \<and>
   req_user (server (fst (astep async_two_logins (Run 0)))) 1 = Some 0 \<and>
   snd (astep (fst (astep async_two_logins (Run 0))) (Run 0)) = Resp ''OK'' (Text ''Session created'') \<and>
   req_user (server (fst (astep (fst (astep async_two_logins (Run 0))) (Run 0)))) 1 = Some 1"
proof -
  have a: "fst (astep async_two_logins (Run 0)) =
     \<lparr>server = \<lparr>sessions = [(1, 0)], gamePopulation = [], conn_map = [], sockets = [],
        destroy_queue = [], uuid_next = 1\<rparr>, loaded = [(ReqLogin 1, None)]\<rparr>"
    by (simp add: async_two_logins_def model_defs Let_def)
  show ?thesis
    using loaded_anonymous_login_rebinds [where a = "fst (astep async_two_logins (Run 0))" and i = 0
        and sid = 1]
    unfolding a by (simp add: req_user_def session_user_def)
qed

text \<open>
  C28. An upgrade whose session was logged in as \<open>u\<close> when it arrived registers an
  open socket for \<open>u\<close> when it runs, even when the session has been destroyed in
  between: the session stays destroyed and no close of the new socket is queued, so an
  open socket remains bound to an identity that no longer has a session.
\<close>

theorem loaded_upgrade_after_logout:
  assumes "i < length (loaded a)" and "loaded a ! i = (ReqUpgrade sid, Some u)"
    and "req_user (server a) sid = None"
  shows "snd (astep a (Run i)) = Upgraded (length (sockets (server a))) \<and>
    req_user (server (fst (astep a (Run i)))) sid = None \<and>
    lookup_conn (conn_map (server (fst (astep a (Run i))))) (Some u) =
      Some (length (sockets (server a))) \<and>
    readyState (sockets (server (fst (astep a (Run i)))) ! length (sockets (server a))) = OPEN \<and>
    destroy_queue (server (fst (astep a (Run i)))) = destroy_queue (server a)"
  using assms
  by (simp add: run_loaded_def load_session_def upgrade_def on_connection_def lookup_conn_def
      req_user_def session_user_def map_of_update_eq Let_def)

theorem loaded_upgrade_after_logout_witness:
  "0 < length (loaded async_upgrade_race) \<and>
   loaded async_upgrade_race ! 0 = (ReqUpgrade 1, Some 0) \<and>
   req_user (server async_upgrade_race) 1 = None \<and>
   snd (astep async_upgrade_race (Run 0)) = Upgraded 0 \<and>
   lookup_conn (conn_map (server (fst (astep async_upgrade_race (Run 0))))) (Some 0) = Some 0"
proof -
  have a: "async_upgrade_race =
     \<lparr>server = \<lparr>sessions = [], gamePopulation = [], conn_map = [], sockets = [],
        destroy_queue = [], uuid_next = 1\<rparr>, loaded = [(ReqUpgrade 1, Some 0)]\<rparr>"
    by (simp add: async_upgrade_race_def async_logged_in_eq model_defs Let_def)
  show ?thesis
    using loaded_upgrade_after_logout [where a = async_upgrade_race and i = 0 and sid = 1 and u = 0]
    unfolding a by (simp add: req_user_def session_user_def)
qed

end
