(* ===== verification/Lifecycle.thy ===== *)
theory Lifecycle
  imports Async
begin

text \<open>
  The per-session state machine of the specification (section 4.4), read off the
  server. A session without an identity is anonymous; since every anonymous visitor
  has the user id \<^verbatim>\<open>undefined\<close>, the anonymous state records the game that this
  shared identity is in (\<open>Anonymous (Some g)\<close> after an anonymous join, which the code
  allows and the specification does not). A logged-in session is authenticated with its
  identity, in no game or in one game. Login moves an anonymous session to a fresh
  identity; a join by the session's identity moves it into an existing game if it is
  in none; logout and cookie expiry make it anonymous again; nothing else changes it.

  \<open>abs_session\<close> is the abstraction (the session's user id and the game of that id
  in the reverse index \<open>game_of\<close>), \<open>abs_event\<close> the abstract event that a handler
  of \<open>Gateway\<close> is for one session. For the asynchronous model of \<open>Async\<close>,
  \<open>aabs_event\<close> maps each event (arrival, run of a loaded request, socket event) to
  the abstract event of the handler as it runs on the loaded session copy. The session is
  \<open>quiet\<close> when each of its loaded requests carries the session's current state, which is
  what a client that sends one request at a time, within the cookie's lifetime, produces;
  requests of all other sessions interleave freely.
\<close>

datatype sess_state = Anonymous "uuid option" | Authenticated uuid | InGame uuid uuid

datatype sess_event = SLogin uuid | SJoin uuid bool | SLogout "uuid option" | SSkip

fun sess_step :: "sess_state \<Rightarrow> sess_event \<Rightarrow> sess_state" where
  "sess_step (Anonymous x) (SLogin u) = Authenticated u"
| "sess_step (Authenticated u) (SJoin g True) = InGame u g"
| "sess_step (Anonymous None) (SJoin g True) = Anonymous (Some g)"
| "sess_step st (SLogout x) = Anonymous x"
| "sess_step st e = st"

definition abs_session :: "srv \<Rightarrow> sid \<Rightarrow> sess_state" where
  "abs_session s sid =
     (case req_user s sid of
        None \<Rightarrow> Anonymous (game_of (gamePopulation s) None)
      | Some u \<Rightarrow>
          (case game_of (gamePopulation s) (Some u) of
             None \<Rightarrow> Authenticated u
           | Some g \<Rightarrow> InGame u g))"

fun abs_event :: "srv \<Rightarrow> sid \<Rightarrow> event \<Rightarrow> sess_event" where
  "abs_event s sid (Login sid') = (if sid' = sid then SLogin (uuid_next s) else SSkip)"
| "abs_event s sid (Join sid' g) =
     (if req_user s sid' = req_user s sid then SJoin g (map_of (gamePopulation s) g \<noteq> None)
      else SSkip)"
| "abs_event s sid (Logout sid') =
     (if sid' = sid then SLogout (game_of (gamePopulation s) None) else SSkip)"
| "abs_event s sid (SessionExpire sid') =
     (if sid' = sid then SLogout (game_of (gamePopulation s) None) else SSkip)"
| "abs_event s sid e = SSkip"

text \<open>The server on which a loaded request runs: its session holds the loaded copy.\<close>

definition loaded_server :: "srv \<Rightarrow> request \<Rightarrow> uuid option \<Rightarrow> srv" where
  "loaded_server s r u = s\<lparr>sessions := load_session (sessions s) (req_sid r) u\<rparr>"

definition aabs_event :: "asrv \<Rightarrow> sid \<Rightarrow> aevent \<Rightarrow> sess_event" where
  "aabs_event a sid e =
     (case e of
        Arrive r \<Rightarrow> SSkip
      | Run i \<Rightarrow>
          (if i < length (loaded a)
           then (case loaded a ! i of
                   (r, u) \<Rightarrow> abs_event (loaded_server (server a) r u) sid (req_event r))
           else SSkip)
      | Other e' \<Rightarrow> abs_event (server a) sid (other_step e'))"

fun atrace :: "asrv \<Rightarrow> sid \<Rightarrow> aevent list \<Rightarrow> sess_event list" where
  "atrace a sid [] = []"
| "atrace a sid (e # es) = aabs_event a sid e # atrace (fst (astep a e)) sid es"

definition sid_quiet :: "asrv \<Rightarrow> sid \<Rightarrow> bool" where
  "sid_quiet a sid \<longleftrightarrow> (\<forall>(r, u)\<in>set (loaded a). req_sid r = sid \<longrightarrow> u = req_user (server a) sid)"

fun quiet_run :: "asrv \<Rightarrow> sid \<Rightarrow> aevent list \<Rightarrow> bool" where
  "quiet_run a sid [] = True"
| "quiet_run a sid (e # es) = (sid_quiet a sid \<and> quiet_run (fst (astep a e)) sid es)"

text \<open>
  A concrete interleaving: session 1 logs in as user 0, creates game 1 and joins it,
  while a login of session 2 waits loaded.
\<close>

definition lifecycle_demo :: asrv where
  "lifecycle_demo =
     arun init_asrv [Arrive (ReqLogin 2), Arrive (ReqLogin 1), Run 1, Arrive (ReqCreateGame 1), Run 1,
       Arrive (ReqJoin 1 1), Run 1]"

lemma sess_step_skip [simp]: "sess_step st SSkip = st"
  by (cases st) simp_all

lemma sess_step_logout [simp]: "sess_step st (SLogout x) = Anonymous x"
  by (cases st) simp_all

lemma sess_step_join_no_game [simp]: "sess_step st (SJoin g False) = st"
  by (cases st) simp_all

lemma sess_step_in_game: "(\<forall>x. ev \<noteq> SLogout x) \<Longrightarrow> sess_step (InGame u g) ev = InGame u g"
  by (cases ev) simp_all

lemma abs_event_SLogout:
  "abs_event s sid e = SLogout x \<Longrightarrow> e = Logout sid \<or> e = SessionExpire sid"
  by (cases e) (auto split: if_splits)

lemma abs_session_cong:
  "req_user s' sid = req_user s sid \<Longrightarrow>
   game_of (gamePopulation s') (req_user s sid) = game_of (gamePopulation s) (req_user s sid) \<Longrightarrow>
   abs_session s' sid = abs_session s sid"
  by (cases "req_user s sid") (simp_all add: abs_session_def)

lemma abs_session_same:
  assumes "sessions s' = sessions s" and "gamePopulation s' = gamePopulation s"
  shows "abs_session s' sid = abs_session s sid"
  by (simp only: abs_session_def req_user_def assms)

lemma srv_inv_fresh:
  assumes "srv_inv s"
  shows "game_of (gamePopulation s) (Some (uuid_next s)) = None"
    and "uuid_next s \<notin> fst ` set (gamePopulation s)"
  using assms by (auto simp: srv_inv_def fresh_inv_def game_of_None_iff)

lemma app_draw_game_of:
  "game_of (gamePopulation (fst (app_draw s sid g))) = game_of (gamePopulation s)"
proof (cases "draw_card (gamePopulation s) g (req_user s sid)")
  case (Inl e)
  then show ?thesis by (simp add: app_draw_def)
next
  case (Inr r)
  obtain gp' ps' where r: "r = (gp', ps')" by fastforce
  with Inr have "game_of gp' = game_of (gamePopulation s)"
    by (auto simp: draw_card_Inr push_card_userIds intro: game_of_update_same)
  with Inr r show ?thesis by (simp add: app_draw_def Let_def split: prod.split)
qed

text \<open>A join by another identity leaves the session's state alone.\<close>

lemma app_join_abs_other:
  assumes ne: "req_user s sid' \<noteq> req_user s sid"
  shows "abs_session (fst (app_join s sid' g)) sid = abs_session s sid"
proof (rule abs_session_cong)
  show "req_user (fst (app_join s sid' g)) sid = req_user s sid"
    by (simp add: req_user_def sessions_untouched)
next
  show "game_of (gamePopulation (fst (app_join s sid' g))) (req_user s sid) =
        game_of (gamePopulation s) (req_user s sid)"
  proof (cases "join_game (gamePopulation s) g (req_user s sid')")
    case (Inl e)
    then show ?thesis by (simp add: app_join_def)
  next
    case (Inr gp')
    then obtain ps where "map_of (gamePopulation s) g = Some ps"
      and "req_user s sid' \<notin> set (members (gamePopulation s))"
      and "gp' = AList.update g (ps @ [new_participant (req_user s sid')]) (gamePopulation s)"
      by (auto simp: join_game_Inr)
    with Inr ne show ?thesis by (simp add: app_join_def game_of_update_join)
  qed
qed

text \<open>A join by the session's own identity, from this session or from another one.\<close>

lemma app_join_abs_same:
  assumes same: "req_user s sid' = req_user s sid"
  shows "abs_session (fst (app_join s sid' g)) sid =
         sess_step (abs_session s sid) (SJoin g (map_of (gamePopulation s) g \<noteq> None))"
proof (cases "join_game (gamePopulation s) g (req_user s sid)")
  case (Inl e)
  then have s': "fst (app_join s sid' g) = s" using same by (simp add: app_join_def)
  show ?thesis
  proof (cases "map_of (gamePopulation s) g")
    case None
    with s' show ?thesis by simp
  next
    case (Some ps)
    with Inl have "game_of (gamePopulation s) (req_user s sid) \<noteq> None"
      by (auto simp: join_game_def already_in_game_iff game_of_None_iff split: if_splits)
    with s' show ?thesis
      by (cases "req_user s sid") (auto simp: abs_session_def split: option.split)
  qed
next
  case (Inr gp')
  then obtain ps where g: "map_of (gamePopulation s) g = Some ps"
    and nm: "req_user s sid \<notin> set (members (gamePopulation s))"
    and gp': "gp' = AList.update g (ps @ [new_participant (req_user s sid)]) (gamePopulation s)"
    by (auto simp: join_game_Inr)
  have s': "fst (app_join s sid' g) = s\<lparr>gamePopulation := gp'\<rparr>"
    using Inr same by (simp add: app_join_def)
  have "game_of (gamePopulation s) (req_user s sid) = None" using nm by (simp add: game_of_None_iff)
  with s' g nm gp' show ?thesis
    by (cases "req_user s sid") (simp_all add: abs_session_def req_user_def game_of_update_join)
qed

text \<open>One handler simulates one step of the machine, for every session.\<close>

lemma abs_session_step:
  assumes inv: "srv_inv s"
  shows "abs_session (fst (step s e)) sid = sess_step (abs_session s sid) (abs_event s sid e)"
proof (cases e)
  case (Login sid')
  show ?thesis
  proof (cases "sid' = sid \<and> req_user s sid = None")
    case True
    with Login srv_inv_fresh(1) [OF inv] show ?thesis
      by (simp add: abs_session_def app_login_eq uuid_v4_def req_user_def session_user_def
          map_of_update_eq)
  next
    case False
    then have "abs_session (fst (app_login s sid')) sid = abs_session s sid"
      by (intro abs_session_cong)
         (auto simp: app_login_eq uuid_v4_def req_user_def session_user_def map_of_update_eq)
    with Login False show ?thesis
      by (auto simp: abs_session_def split: option.split)
  qed
next
  case (CreateGame sid')
  have "abs_session (fst (app_create_game s sid')) sid = abs_session s sid"
    by (rule abs_session_cong)
       (simp_all add: req_user_def sessions_untouched app_create_game_def uuid_v4_def
         game_of_create_fresh srv_inv_fresh(2) [OF inv])
  with CreateGame show ?thesis by simp
next
  case (Draw sid' g)
  have "abs_session (fst (app_draw s sid' g)) sid = abs_session s sid"
    by (rule abs_session_cong) (simp_all add: req_user_def sessions_untouched app_draw_game_of)
  with Draw show ?thesis by simp
next
  case (Join sid' g)
  then show ?thesis
    by (cases "req_user s sid' = req_user s sid") (simp_all add: app_join_abs_same app_join_abs_other)
next
  case (Logout sid')
  have "abs_session (fst (app_logout s sid')) sid =
        (if sid' = sid then Anonymous (game_of (gamePopulation s) None) else abs_session s sid)"
    by (simp add: abs_session_def app_logout_def Let_def req_user_def session_user_destroy
        split: option.split)
  with Logout show ?thesis by simp
next
  case DestroyDone
  have "abs_session (fst (destroy_callback s)) sid = abs_session s sid"
    by (rule abs_session_same) (simp_all add: destroy_callback_def split: list.split)
  with DestroyDone show ?thesis by simp
next
  case (Upgrade sid')
  have "abs_session (fst (upgrade s sid')) sid = abs_session s sid"
    by (rule abs_session_same)
       (simp_all add: sessions_untouched upgrade_def Let_def split: option.split prod.split)
  with Upgrade show ?thesis by simp
next
  case (WsMessage w m)
  then show ?thesis by simp
next
  case (WsClose w)
  have "abs_session (fst (ws_closed s w)) sid = abs_session s sid"
    by (rule abs_session_same) (simp_all add: ws_closed_def Let_def split: prod.split)
  with WsClose show ?thesis by simp
next
  case (SessionExpire sid')
  have "abs_session (fst (step s e)) sid =
        (if sid' = sid then Anonymous (game_of (gamePopulation s) None) else abs_session s sid)"
    using SessionExpire
    by (simp add: abs_session_def req_user_def session_user_destroy split: option.split)
  with SessionExpire show ?thesis by simp
qed

text \<open>
  On a quiet session, the copy a loaded request carries is the session's current state;
  requests of other sessions load another session's entry. Either way the session is
  seen the same on the server the request runs on.
\<close>

lemma loaded_server_abs:
  assumes q: "sid_quiet a sid" and m: "(r, u) \<in> set (loaded a)"
  shows "abs_session (loaded_server (server a) r u) sid = abs_session (server a) sid"
proof (cases "req_sid r = sid")
  case True
  with q m have "u = req_user (server a) sid" by (auto simp: sid_quiet_def)
  with True show ?thesis by (simp add: loaded_server_def req_user_def load_current)
next
  case False
  then have "req_user (loaded_server (server a) r u) sid = req_user (server a) sid"
    by (cases u) (simp_all add: loaded_server_def load_session_def req_user_def session_user_def
        session_destroy_def map_of_update_eq map_of_delete_eq)
  then show ?thesis by (rule abs_session_cong) (simp add: loaded_server_def)
qed

lemma run_loaded_server:
  "fst (run_loaded s r u) =
     (if saves_session r then fst (step (loaded_server s r u) (req_event r))
      else (fst (step (loaded_server s r u) (req_event r)))\<lparr>sessions := sessions s\<rparr>)"
  by (simp add: run_loaded_def loaded_server_def handle_step split: prod.split)

lemma loaded_server_inv:
  "async_inv a \<Longrightarrow> (r, u) \<in> set (loaded a) \<Longrightarrow> srv_inv (loaded_server (server a) r u)"
  using load_session_inv [of "server a" u "req_sid r"] snapshots_fresh [of a r u "uuid_next (server a)"]
  by (simp add: async_inv_def loaded_server_def)

text \<open>Every step of the asynchronous server simulates one step of the machine.\<close>

lemma abs_session_astep:
  assumes inv: "async_inv a" and q: "sid_quiet a sid"
  shows "abs_session (server (fst (astep a e))) sid =
         sess_step (abs_session (server a) sid) (aabs_event a sid e)"
proof (cases e)
  case (Arrive r)
  then show ?thesis by (simp add: aabs_event_def)
next
  case (Other e')
  from inv have i: "srv_inv (server a)" by (simp add: async_inv_def)
  obtain s' resp where h: "step (server a) (other_step e') = (s', resp)" by fastforce
  with Other abs_session_step [OF i, of "other_step e'" sid] show ?thesis
    by (simp add: aabs_event_def)
next
  case (Run i)
  show ?thesis
  proof (cases "i < length (loaded a)")
    case False
    with Run show ?thesis by (simp add: aabs_event_def)
  next
    case lt: True
    obtain r u where ru: "loaded a ! i = (r, u)" by fastforce
    with lt have m: "(r, u) \<in> set (loaded a)" by (metis nth_mem)
    let ?s1 = "loaded_server (server a) r u"
    have a1: "abs_session ?s1 sid = abs_session (server a) sid" by (rule loaded_server_abs [OF q m])
    have ev: "aabs_event a sid e = abs_event ?s1 sid (req_event r)"
      using Run lt ru by (simp add: aabs_event_def)
    have srv: "server (fst (astep a e)) = fst (run_loaded (server a) r u)"
      using Run lt ru by (simp split: prod.split)
    show ?thesis
    proof (cases "saves_session r")
      case True
      with srv ev a1 abs_session_step [OF loaded_server_inv [OF inv m], of "req_event r" sid]
      show ?thesis by (simp add: run_loaded_server)
    next
      case False
      then obtain sid' where r: "r = ReqUpgrade sid'" by (cases r) simp_all
      have "abs_session ((fst (step ?s1 (req_event r)))\<lparr>sessions := sessions (server a)\<rparr>) sid =
            abs_session (server a) sid"
        by (rule abs_session_same)
           (simp_all add: r upgrade_def loaded_server_def Let_def split: option.split prod.split)
      with srv ev False r show ?thesis by (simp add: run_loaded_server)
    qed
  qed
qed

lemma aabs_event_not_logout:
  assumes "ReqLogout sid \<notin> fst ` set (loaded a)" and "e \<noteq> Other (OSessionExpire sid)"
  shows "aabs_event a sid e \<noteq> SLogout x"
proof
  assume l: "aabs_event a sid e = SLogout x"
  show False
  proof (cases e)
    case (Arrive r)
    with l show False by (simp add: aabs_event_def)
  next
    case (Run i)
    with l obtain r u where lt: "i < length (loaded a)" and ru: "loaded a ! i = (r, u)"
      and ev: "abs_event (loaded_server (server a) r u) sid (req_event r) = SLogout x"
      by (auto simp: aabs_event_def split: if_splits prod.splits)
    from ev have "req_event r = Logout sid \<or> req_event r = SessionExpire sid" by (rule abs_event_SLogout)
    then have "r = ReqLogout sid" by (cases r) simp_all
    moreover from lt ru have "(r, u) \<in> set (loaded a)" by (metis nth_mem)
    ultimately show False using assms(1) by force
  next
    case (Other e')
    with l have ev: "abs_event (server a) sid (other_step e') = SLogout x"
      by (simp add: aabs_event_def)
    from ev have "other_step e' = Logout sid \<or> other_step e' = SessionExpire sid"
      by (rule abs_event_SLogout)
    then have "e' = OSessionExpire sid" by (cases e') simp_all
    with Other assms(2) show False by simp
  qed
qed

lemma loaded_astep_reqs:
  "fst ` set (loaded (fst (astep a e))) \<subseteq>
   fst ` set (loaded a) \<union> (case e of Arrive r \<Rightarrow> {r} | _ \<Rightarrow> {})"
proof (cases e)
  case (Run i)
  have "set (take i (loaded a) @ drop (Suc i) (loaded a)) \<subseteq> set (loaded a)"
    by (auto dest: in_set_takeD in_set_dropD)
  with Run show ?thesis by (auto simp: Let_def split: prod.splits)
qed (auto simp: Let_def split: prod.splits)

lemma lifecycle_demo_eq:
  "lifecycle_demo =
     \<lparr>server = \<lparr>sessions = [(1, 0)], gamePopulation = [(1, [\<lparr>userId = Some 0, cards = []\<rparr>])],
        conn_map = [], sockets = [], destroy_queue = [], uuid_next = 2\<rparr>,
      loaded = [(ReqLogin 2, None)]\<rparr>"
  by (simp add: lifecycle_demo_def model_defs Let_def)

lemma areachable_lifecycle_demo: "areachable lifecycle_demo"
  unfolding lifecycle_demo_def by (intro areachable_arun areachable.init)

text \<open>
  C31. Per-session simulation in the asynchronous server: along every run from a
  reachable state in which the session stays quiet (each of its loaded requests carries
  its current state), while requests of all other sessions and socket events interleave
  freely, the session evolves as the state machine of the specification, driven by the
  abstract events of its own login, its identity's joins, its logout and its expiry. An
  anonymous session shares the game of the identity \<^verbatim>\<open>undefined\<close> with every other
  anonymous session.
\<close>

theorem run_simulates_session_machine:
  "areachable a \<Longrightarrow> quiet_run a sid es \<Longrightarrow>
   abs_session (server (arun a es)) sid = foldl sess_step (abs_session (server a) sid) (atrace a sid es)"
proof (induction es arbitrary: a)
  case Nil
  then show ?case by simp
next
  case (Cons e es)
  from Cons.prems(2) have q: "sid_quiet a sid" and qs: "quiet_run (fst (astep a e)) sid es" by simp_all
  from Cons.prems(1) have "areachable (fst (astep a e))" by (rule areachable.step)
  with Cons.IH qs abs_session_astep [OF areachable_inv [OF Cons.prems(1)] q, of e] show ?case by simp
qed

theorem run_simulates_session_machine_witness:
  "areachable lifecycle_demo \<and>
   quiet_run lifecycle_demo 2 [Run 0, Arrive (ReqJoin 2 1), Run 0] \<and>
   atrace lifecycle_demo 2 [Run 0, Arrive (ReqJoin 2 1), Run 0] = [SLogin 2, SSkip, SJoin 1 True] \<and>
   abs_session (server (arun lifecycle_demo [Run 0, Arrive (ReqJoin 2 1), Run 0])) 2 = InGame 2 1"
proof -
  have q: "quiet_run lifecycle_demo 2 [Run 0, Arrive (ReqJoin 2 1), Run 0]"
    and t: "atrace lifecycle_demo 2 [Run 0, Arrive (ReqJoin 2 1), Run 0] = [SLogin 2, SSkip, SJoin 1 True]"
    and a: "abs_session (server lifecycle_demo) 2 = Anonymous None"
    by (simp_all add: lifecycle_demo_eq sid_quiet_def aabs_event_def loaded_server_def abs_session_def
        game_of_def model_defs Let_def)
  from run_simulates_session_machine [OF areachable_lifecycle_demo q] areachable_lifecycle_demo q t a
  show ?thesis by (simp del: arun.simps)
qed

text \<open>
  C32. In the asynchronous server, a quiet session that is in a game stays in that game
  with the same identity, whatever other sessions and sockets do, until a logout of the
  session arrives or its cookie expires.
\<close>

theorem in_game_until_logout:
  assumes "areachable a" and "abs_session (server a) sid = InGame u g" and "quiet_run a sid es"
    and "ReqLogout sid \<notin> fst ` set (loaded a)" and "Arrive (ReqLogout sid) \<notin> set es"
    and "Other (OSessionExpire sid) \<notin> set es"
  shows "abs_session (server (arun a es)) sid = InGame u g"
  using assms
proof (induction es arbitrary: a)
  case Nil
  then show ?case by simp
next
  case (Cons e es)
  from Cons.prems(3) have q: "sid_quiet a sid" and qs: "quiet_run (fst (astep a e)) sid es" by simp_all
  have "e \<noteq> Other (OSessionExpire sid)" using Cons.prems(6) by auto
  then have "\<forall>x. aabs_event a sid e \<noteq> SLogout x"
    using aabs_event_not_logout [OF Cons.prems(4)] by simp
  with abs_session_astep [OF areachable_inv [OF Cons.prems(1)] q, of e] Cons.prems(2)
  have g: "abs_session (server (fst (astep a e))) sid = InGame u g" by (simp add: sess_step_in_game)
  have "ReqLogout sid \<notin> fst ` set (loaded a) \<union> (case e of Arrive r \<Rightarrow> {r} | _ \<Rightarrow> {})"
    using Cons.prems(4,5) by (cases e) auto
  with loaded_astep_reqs [of a e] have "ReqLogout sid \<notin> fst ` set (loaded (fst (astep a e)))"
    by blast
  with Cons.IH [OF areachable.step [OF Cons.prems(1)] g qs] Cons.prems(5,6) show ?case by simp
qed

theorem in_game_until_logout_witness:
  "areachable lifecycle_demo \<and> abs_session (server lifecycle_demo) 1 = InGame 0 1 \<and>
   quiet_run lifecycle_demo 1 [Run 0, Arrive (ReqJoin 1 1), Arrive (ReqJoin 2 1), Run 0, Run 0,
     Arrive (ReqLogin 1), Run 0, Other ODestroyDone] \<and>
   ReqLogout 1 \<notin> fst ` set (loaded lifecycle_demo) \<and>
   abs_session (server (arun lifecycle_demo [Run 0, Arrive (ReqJoin 1 1), Arrive (ReqJoin 2 1), Run 0,
     Run 0, Arrive (ReqLogin 1), Run 0, Other ODestroyDone])) 1 = InGame 0 1"
proof -
  have a: "abs_session (server lifecycle_demo) 1 = InGame 0 1"
    and q: "quiet_run lifecycle_demo 1 [Run 0, Arrive (ReqJoin 1 1), Arrive (ReqJoin 2 1), Run 0, Run 0,
     Arrive (ReqLogin 1), Run 0, Other ODestroyDone]"
    and l: "ReqLogout 1 \<notin> fst ` set (loaded lifecycle_demo)"
    by (simp_all add: lifecycle_demo_eq sid_quiet_def abs_session_def game_of_def model_defs Let_def)
  from in_game_until_logout [OF areachable_lifecycle_demo a q l] areachable_lifecycle_demo a q l
  show ?thesis by (simp del: arun.simps)
qed

end
