(* ===== verification/Spec2Isabelle.thy ===== *)
theory Spec2Isabelle
  imports Async Lifecycle
begin

text \<open>
  \<^bold>\<open>A verification model of node-sockets (\<^verbatim>\<open>src/index.js\<close>).\<close>

  \<^medskip>\<^bold>\<open>The program.\<close> One Node process serves an Express app and a WebSocket server.
  Its state is two module-level maps, \<^verbatim>\<open>map\<close> (user id to WebSocket, line 12) and
  \<^verbatim>\<open>gamePopulation\<close> (game id to an array of participants
  \<^verbatim>\<open>{userId, cards}\<close>, line 13), and the session store of
  \<^verbatim>\<open>express-session\<close> (lines 16--24). Routes: \<^verbatim>\<open>POST /login\<close> (31--42),
  \<^verbatim>\<open>POST /game/create\<close> (45--51), \<^verbatim>\<open>POST /game/:gameId/draw\<close> (54--79),
  \<^verbatim>\<open>POST /game/:gameId/join\<close> (81--112), \<^verbatim>\<open>DELETE /logout\<close> (115--125);
  socket events: \<^verbatim>\<open>upgrade\<close> (133--149), \<^verbatim>\<open>connection\<close>, \<^verbatim>\<open>message\<close>
  and \<^verbatim>\<open>close\<close> (151--181). The draw handler notifies every participant of the game
  through \<^verbatim>\<open>map\<close>.

  \<^medskip>\<^bold>\<open>Theories.\<close>
  \<^item> \<open>Prelude\<close>: ids as \<open>nat\<close>; a JavaScript \<^verbatim>\<open>Map\<close> as an association list in
    insertion order (\<open>map_of\<close>, \<open>AList.update\<close>, \<open>AList.delete\<close>); the reply
    datatype \<open>response\<close>; generic lemmas on \<open>find\<close>, flag-setting \<open>fold\<close> loops
    and association lists; the collections \<open>js_map_simps\<close> and \<open>model_defs\<close> (the
    handler definitions, unfolded to run the model on concrete events).
  \<^item> \<open>Identity\<close> (IdentityStore): \<open>session_user\<close> is \<^verbatim>\<open>req.session.userId\<close>,
    \<open>session_login\<close> the check-and-bind of login (called by \<open>app_login\<close>),
    \<open>session_destroy\<close>
    \<^verbatim>\<open>session.destroy\<close> and cookie expiry.
  \<^item> \<open>Games\<close> (GameRegistry): record \<open>participant\<close>; \<open>create_game\<close>,
    \<open>already_in_game\<close> (the \<^verbatim>\<open>forEach\<close> scan), \<open>join_game\<close>,
    \<open>push_card\<close> and \<open>draw_card\<close> (the \<^verbatim>\<open>find\<close> and
    \<^verbatim>\<open>cards.push\<close> on the aliased participant object), errors as
    \<open>game_error\<close>. Invariant \<open>games_inv\<close> (distinct game ids, no identity twice
    among all participants); the abstract view \<open>game_of\<close>, the reverse index
    identity to game proposed by the design notes, with refinement lemmas.
  \<^item> \<open>Connections\<close> (ConnectionRegistry): record \<open>sock\<close> (owner captured by the
    connection closure, \<^verbatim>\<open>readyState\<close>, delivered messages); \<open>ws_send\<close>,
    \<open>ws_close\<close>, \<open>on_connection\<close> (\<^verbatim>\<open>map.set\<close>), \<open>on_close\<close>
    (\<^verbatim>\<open>map.delete\<close>). Invariant \<open>conn_inv\<close>: every entry names a live socket
    of that user.
  \<^item> \<open>Fanout\<close> (NotificationFanout): \<open>broadcast\<close>, the \<^verbatim>\<open>forEach\<close> of the
    draw handler, returning the sockets after the sends made and \<open>Inl TypeError\<close> when
    \<^verbatim>\<open>map.get\<close> returned \<^verbatim>\<open>undefined\<close>; exact delivery counts.
  \<^item> \<open>Gateway\<close> (SessionGateway): record \<open>srv\<close> of the whole server, one
    definition per handler (\<open>app_login\<close>, \<open>app_create_game\<close>, \<open>app_draw\<close>,
    \<open>app_join\<close>, \<open>app_logout\<close>, \<open>destroy_callback\<close>, \<open>upgrade\<close>,
    \<open>ws_closed\<close>), the \<open>event\<close> datatype, the step function \<open>step\<close>, its
    runs and the inductive set \<open>reachable\<close>; invariant \<open>srv_inv\<close> (the two
    component invariants, distinct session ids, and every id below the fresh-id counter)
    preserved by every handler, hence true in every reachable state.
  \<^item> \<open>Async\<close> (Session loading middleware): \<^verbatim>\<open>sessionParser\<close> of lines
    16--27 and 136. A request (\<open>request\<close>) first arrives and has its session read
    (\<open>Arrive\<close>, which records the user id of the session at that moment); any loaded
    request runs later (\<open>Run i\<close>) through \<open>run_loaded\<close>: the handler of
    \<open>Gateway\<close> on the store holding that copy (\<open>load_session\<close>), the store
    written back afterwards (\<^verbatim>\<open>resave: true\<close>) except for the upgrade handler,
    which gets \<^verbatim>\<open>{}\<close> as its response and never saves. State \<open>asrv\<close> (the
    server and the loaded requests), step \<open>astep\<close>, runs \<open>arun\<close>, the
    inductive set \<open>areachable\<close> and its invariant \<open>async_inv\<close>.
  \<^item> \<open>Lifecycle\<close>: the per-session state machine of the specification (anonymous,
    authenticated, in a game; \<open>sess_state\<close>, \<open>sess_step\<close>) as an abstraction
    \<open>abs_session\<close> of \<open>srv\<close> (the session's user id and its game in the reverse
    index \<open>game_of\<close>; an anonymous session carries the game of the shared identity
    \<^verbatim>\<open>undefined\<close>), with \<open>abs_event\<close> the abstract event each handler is for a
    given session: \<open>step\<close> simulates the machine for every session. In the
    asynchronous server, \<open>aabs_event\<close> and \<open>atrace\<close> read the abstract events off
    arrivals, runs of loaded requests and socket events, and the simulation holds for a
    session that is quiet (\<open>sid_quiet\<close>, \<open>quiet_run\<close>: each of its loaded
    requests carries its current state), with all other sessions interleaving freely.
  \<^item> this theory: concrete runs (\<open>scenario_a\<close> \<dots>) and the properties that span
    components.

  \<^medskip>\<^bold>\<open>Concurrency.\<close> Node runs one callback at a time, so each handler body
  between two asynchronous points is one atomic \<open>step\<close>; an interleaving of
  concurrent requests is a list of events. Logout is split at its asynchronous point:
  \<open>app_logout\<close> reads the socket and destroys the session, \<open>destroy_callback\<close>
  (event \<open>DestroyDone\<close>, in FIFO order) closes it and replies. A socket's close event
  (\<open>WsClose\<close>) can come at any time, from the client or after \<^verbatim>\<open>ws.close()\<close>.

  \<^medskip>\<^bold>\<open>Abstractions.\<close> \<^verbatim>\<open>uuid.v4()\<close> is a counter (\<open>uuid_next\<close>): ids
  are unique, as random v4 ids are taken to be. The session store is seen through
  \<^verbatim>\<open>userId\<close> only; a destroyed or expired session is one without it, which is
  what a fresh session of the same browser looks like to the handlers. Upgrade, the
  session lookup and the \<^verbatim>\<open>connection\<close> handler are one step in
  \<open>Gateway\<close>, which reads the store when the handler runs; \<open>Async\<close> separates
  the read of the session (on arrival) from the handler and the save (when the request
  runs), so that requests of one session racing each other are interleavings there;
  \<open>Gateway\<close> is the case where each request runs as soon as it has arrived. The
  properties of the atomic model (C1--C24, C29, C30) hold for that case; those of
  \<open>Async\<close> and \<open>Lifecycle\<close> (C25--C28, C31, C32) hold for every interleaving
  of the asynchronous server, C31 and C32 for a session that does not race itself.
  The
  \<^verbatim>\<open>ws\<close> library is modelled from its documented behaviour: sends reach only an
  open socket, a send on a closing socket is dropped without an exception. No bound or
  fuel is needed: every loop of the program is a \<^verbatim>\<open>forEach\<close> or \<^verbatim>\<open>find\<close>
  over a list, modelled by structural recursion.

  \<^medskip>\<^bold>\<open>Properties.\<close> Single-game membership in every reachable state (C1);
  the branches of join and draw with their replies (C2--C8); logout (C9, C22);
  the registry after reconnects and closes (C10, C11, C23); login and game creation
  with fresh ids (C12--C14); the linear membership scan against the reverse index, and
  join and draw as refinements of it, a draw pushing exactly one card (C15--C17, in
  \<open>Games\<close>); the loop stopping at the first missing socket (C18, in \<open>Fanout\<close>);
  upgrade without a session (C19); anonymous sessions sharing one participant (C20); the
  scenario of the specification from any reachable state (C21); games and participants
  never removed (C24). In \<open>Async\<close>: the invariants under every interleaving (C25);
  a loaded request writing back its stale session (C26); a login loaded while the
  session was anonymous rebinding it (C27); an upgrade loaded before a logout
  registering a socket for the destroyed session (C28). Login followed by logout
  restores the server up to the used id (C29); the registries are bounded by the number
  of issued ids (C30). In \<open>Lifecycle\<close>: every run of the asynchronous server
  simulates the specification's per-session state machine for a quiet session (C31),
  and such a session stays in its game until it is logged out or expires (C32).

  \<^medskip>\<^bold>\<open>What the model shows about the code.\<close> A draw in a game with a
  participant that has no open socket throws after pushing the card (C8, C18); the close
  handler of an old socket deletes the entry of the user's newer socket (C10); create,
  join and draw never check that the session is logged in, and all anonymous visitors
  share the user id \<^verbatim>\<open>undefined\<close>, hence one participant (C14, C20, C31); logout
  leaves the socket in \<^verbatim>\<open>map\<close> until its close event (C22). With the asynchronous
  session load, any request of a session loaded before its logout logs the session in
  again when it runs (C26); a login loaded while the session was anonymous succeeds and
  replaces any identity bound in between, so two concurrent logins both reply
  \<open>Session created\<close> (C27); an upgrade loaded before a logout registers a socket for
  the destroyed session that logout could not close (C28).

  \<^medskip>\<^bold>\<open>Further work.\<close> (1) Delivery counts over runs that interleave draws with
  socket events. (2) The order of notifications on each socket (one per draw, in draw
  order).

  \<^medskip>\<^bold>\<open>Not modelled.\<close> Express routing, body parsing and static files (the
  \<open>event\<close> datatype stands for the routes), logging, \<^verbatim>\<open>server.listen\<close>, the
  HTTP upgrade handshake bytes, message contents on the wire, and the timing of events.
\<close>

text \<open>Concrete runs used by the witnesses: two visitors, one game, one socket.\<close>

definition scenario_a :: srv where
  "scenario_a = run init_srv [Login 1, CreateGame 1, Join 1 1, Upgrade 1]"

definition scenario_b :: srv where
  "scenario_b = run scenario_a [Login 2, Join 2 1, Upgrade 2]"

definition scenario_c :: srv where
  "scenario_c = run scenario_a [Login 2]"

definition scenario_d :: srv where
  "scenario_d = run scenario_a [Login 2, Join 2 1]"

definition scenario_e :: srv where
  "scenario_e = run scenario_a [Upgrade 1]"

lemma scenario_a_eq:
  "scenario_a = \<lparr>sessions = [(1, 0)], gamePopulation = [(1, [\<lparr>userId = Some 0, cards = []\<rparr>])],
     conn_map = [(0, 0)], sockets = [\<lparr>owner = 0, readyState = OPEN, received = []\<rparr>],
     destroy_queue = [], uuid_next = 2\<rparr>"
  by (simp add: scenario_a_def model_defs Let_def)

lemma scenario_b_eq:
  "scenario_b = \<lparr>sessions = [(1, 0), (2, 2)],
     gamePopulation = [(1, [\<lparr>userId = Some 0, cards = []\<rparr>, \<lparr>userId = Some 2, cards = []\<rparr>])],
     conn_map = [(0, 0), (2, 1)],
     sockets = [\<lparr>owner = 0, readyState = OPEN, received = []\<rparr>,
                \<lparr>owner = 2, readyState = OPEN, received = []\<rparr>],
     destroy_queue = [], uuid_next = 3\<rparr>"
  by (simp add: scenario_b_def scenario_a_eq model_defs Let_def)

lemma scenario_c_eq:
  "scenario_c = scenario_a\<lparr>sessions := [(1, 0), (2, 2)], uuid_next := 3\<rparr>"
  by (simp add: scenario_c_def scenario_a_eq model_defs Let_def)

lemma scenario_d_eq:
  "scenario_d = scenario_a\<lparr>sessions := [(1, 0), (2, 2)],
     gamePopulation := [(1, [\<lparr>userId = Some 0, cards = []\<rparr>, \<lparr>userId = Some 2, cards = []\<rparr>])],
     uuid_next := 3\<rparr>"
  by (simp add: scenario_d_def scenario_a_eq model_defs Let_def)

lemma scenario_e_eq:
  "scenario_e = scenario_a\<lparr>conn_map := [(0, 1)],
     sockets := [\<lparr>owner = 0, readyState = OPEN, received = []\<rparr>,
                 \<lparr>owner = 0, readyState = OPEN, received = []\<rparr>]\<rparr>"
  by (simp add: scenario_e_def scenario_a_eq model_defs Let_def)

lemma reachable_scenario_a: "reachable scenario_a"
  unfolding scenario_a_def by (rule reachable_run [OF reachable.init])

lemma reachable_scenario_e: "reachable scenario_e"
  unfolding scenario_e_def by (rule reachable_run [OF reachable_scenario_a])

lemma reachable_scenario_b: "reachable scenario_b"
  unfolding scenario_b_def by (rule reachable_run [OF reachable_scenario_a])

text \<open>
  C1. Single-game membership: in every state the server can reach, an identity is a
  participant of at most one game, and appears there once.
\<close>

theorem single_game_membership:
  assumes "reachable s"
    and "map_of (gamePopulation s) g1 = Some ps1" and "map_of (gamePopulation s) g2 = Some ps2"
    and "p1 \<in> set ps1" and "p2 \<in> set ps2" and "userId p1 = userId p2"
  shows "g1 = g2 \<and> p1 = p2"
proof -
  from assms(1) have inv: "games_inv (gamePopulation s)"
    by (simp add: reachable_srv_inv [THEN srv_inv_def [THEN iffD1]])
  from inv assms(2-6) show ?thesis by (rule games_inv_unique)
qed

theorem single_game_membership_witness:
  "reachable scenario_b \<and>
   map_of (gamePopulation scenario_b) 1 =
     Some [\<lparr>userId = Some 0, cards = []\<rparr>, \<lparr>userId = Some 2, cards = []\<rparr>] \<and>
   (1::uuid) = 1 \<and> \<lparr>userId = Some 2, cards = []\<rparr> = (\<lparr>userId = Some 2, cards = []\<rparr> :: participant)"
proof -
  have g: "map_of (gamePopulation scenario_b) 1 =
     Some [\<lparr>userId = Some 0, cards = []\<rparr>, \<lparr>userId = Some 2, cards = []\<rparr>]"
    by (simp add: scenario_b_eq)
  have "(1::uuid) = 1 \<and> \<lparr>userId = Some 2, cards = []\<rparr> = (\<lparr>userId = Some 2, cards = []\<rparr> :: participant)"
    by (rule single_game_membership [OF reachable_scenario_b g g]) simp_all
  with g reachable_scenario_b show ?thesis by simp
qed

text \<open>
  C2. Joining a game id that is not in \<^verbatim>\<open>gamePopulation\<close> replies
  \<^verbatim>\<open>'game does not exist.'\<close> and changes nothing.
\<close>

theorem join_unknown_game:
  "map_of (gamePopulation s) g = None \<Longrightarrow>
   step s (Join sid g) = (s, Resp ''400'' (Text ''game does not exist.''))"
  by (simp add: app_join_def join_game_def)

theorem join_unknown_game_witness:
  "map_of (gamePopulation scenario_a) 7 = None \<and>
   step scenario_a (Join 1 7) = (scenario_a, Resp ''400'' (Text ''game does not exist.''))"
proof -
  have "map_of (gamePopulation scenario_a) 7 = None" by (simp add: scenario_a_eq)
  with join_unknown_game show ?thesis by simp
qed

text \<open>
  C3. A visitor who already is a participant of some game cannot join an existing game:
  the reply is \<^verbatim>\<open>'you can only be in 1 game.'\<close> and nothing changes.
\<close>

theorem join_when_already_in_game:
  "req_user s sid \<in> set (members (gamePopulation s)) \<Longrightarrow>
   map_of (gamePopulation s) g = Some ps \<Longrightarrow>
   step s (Join sid g) = (s, Resp ''400'' (Text ''you can only be in 1 game.''))"
  by (simp add: app_join_def join_game_def already_in_game_iff)

theorem join_when_already_in_game_witness:
  "req_user scenario_a 1 \<in> set (members (gamePopulation scenario_a)) \<and>
   map_of (gamePopulation scenario_a) 1 = Some [\<lparr>userId = Some 0, cards = []\<rparr>] \<and>
   step scenario_a (Join 1 1) = (scenario_a, Resp ''400'' (Text ''you can only be in 1 game.''))"
proof -
  have a: "req_user scenario_a 1 \<in> set (members (gamePopulation scenario_a))"
    and b: "map_of (gamePopulation scenario_a) 1 = Some [\<lparr>userId = Some 0, cards = []\<rparr>]"
    by (simp_all add: scenario_a_eq model_defs members_def)
  from join_when_already_in_game [OF a b] a b show ?thesis by simp
qed

text \<open>
  C4. A visitor in no game joins an existing game: a participant with its user id and no
  cards is appended to the game's participants, and the reply is
  \<^verbatim>\<open>'game joined'\<close>.
\<close>

theorem join_appends_participant:
  "map_of (gamePopulation s) g = Some ps \<Longrightarrow> req_user s sid \<notin> set (members (gamePopulation s)) \<Longrightarrow>
   step s (Join sid g) =
     (s\<lparr>gamePopulation := AList.update g (ps @ [\<lparr>userId = req_user s sid, cards = []\<rparr>]) (gamePopulation s)\<rparr>,
      Resp ''OK'' (Text ''game joined''))"
  by (simp add: app_join_def join_game_def already_in_game_iff new_participant_def)

theorem join_appends_participant_witness:
  "map_of (gamePopulation scenario_c) 1 = Some [\<lparr>userId = Some 0, cards = []\<rparr>] \<and>
   req_user scenario_c 2 \<notin> set (members (gamePopulation scenario_c)) \<and>
   fst (step scenario_c (Join 2 1)) =
     scenario_c\<lparr>gamePopulation := [(1, [\<lparr>userId = Some 0, cards = []\<rparr>, \<lparr>userId = Some 2, cards = []\<rparr>])]\<rparr>"
proof -
  have a: "map_of (gamePopulation scenario_c) 1 = Some [\<lparr>userId = Some 0, cards = []\<rparr>]"
    and b: "req_user scenario_c 2 \<notin> set (members (gamePopulation scenario_c))"
    by (simp_all add: scenario_c_eq scenario_a_eq model_defs members_def)
  from join_appends_participant [OF a b] a b show ?thesis
    by (simp add: scenario_c_eq scenario_a_eq model_defs)
qed

text \<open>
  C5. Two joins of the same visitor, one after the other (Node runs each handler to
  completion, so concurrent requests are some such sequence): when the visitor is in no
  game and both games exist, the first join succeeds and the second is refused with
  \<^verbatim>\<open>'you can only be in 1 game.'\<close>, leaving the state of the first.
\<close>

theorem two_joins_one_succeeds:
  assumes "req_user s sid \<notin> set (members (gamePopulation s))"
    and "map_of (gamePopulation s) g1 = Some ps1" and "map_of (gamePopulation s) g2 = Some ps2"
  shows "snd (step s (Join sid g1)) = Resp ''OK'' (Text ''game joined'') \<and>
         step (fst (step s (Join sid g1))) (Join sid g2) =
           (fst (step s (Join sid g1)), Resp ''400'' (Text ''you can only be in 1 game.''))"
proof -
  let ?u = "req_user s sid" and ?gp = "gamePopulation s"
  let ?gp' = "AList.update g1 (ps1 @ [new_participant ?u]) ?gp"
  have j1: "join_game ?gp g1 ?u = Inr ?gp'"
    using assms(1,2) by (simp add: join_game_Inr)
  then have mem: "?u \<in> set (members ?gp')" by (simp add: join_game_members)
  have g2: "map_of ?gp' g2 \<noteq> None"
    using assms(3) by (simp add: map_of_update_eq)
  have "req_user (s\<lparr>gamePopulation := ?gp'\<rparr>) sid = ?u" by (simp add: req_user_def)
  with j1 mem g2 show ?thesis
    by (auto simp: app_join_def join_game_def already_in_game_iff)
qed

theorem two_joins_one_succeeds_witness:
  "req_user scenario_c 2 \<notin> set (members (gamePopulation scenario_c)) \<and>
   map_of (gamePopulation scenario_c) 1 = Some [\<lparr>userId = Some 0, cards = []\<rparr>] \<and>
   snd (step scenario_c (Join 2 1)) = Resp ''OK'' (Text ''game joined'') \<and>
   snd (step (fst (step scenario_c (Join 2 1))) (Join 2 1)) = Resp ''400'' (Text ''you can only be in 1 game.'')"
proof -
  have a: "req_user scenario_c 2 \<notin> set (members (gamePopulation scenario_c))"
    and b: "map_of (gamePopulation scenario_c) 1 = Some [\<lparr>userId = Some 0, cards = []\<rparr>]"
    by (simp_all add: scenario_c_eq scenario_a_eq model_defs members_def)
  from two_joins_one_succeeds [OF a b b] a b show ?thesis by simp
qed

text \<open>
  C6. A draw in a game that does not exist, or by a visitor who is not one of its
  participants, replies \<^verbatim>\<open>'game does not exist or you are not in that game.'\<close>
  and changes nothing: every participant keeps its cards.
\<close>

theorem draw_refused:
  "map_of (gamePopulation s) g = None \<or>
   (\<exists>ps. map_of (gamePopulation s) g = Some ps \<and> req_user s sid \<notin> userId ` set ps) \<Longrightarrow>
   step s (Draw sid g) = (s, Resp ''400'' (Text ''game does not exist or you are not in that game.''))"
proof -
  assume h: "map_of (gamePopulation s) g = None \<or>
    (\<exists>ps. map_of (gamePopulation s) g = Some ps \<and> req_user s sid \<notin> userId ` set ps)"
  have "\<forall>gp' ps'. draw_card (gamePopulation s) g (req_user s sid) \<noteq> Inr (gp', ps')"
    using h by (auto simp: draw_card_Inr)
  then obtain e where "draw_card (gamePopulation s) g (req_user s sid) = Inl e"
    by (metis surj_pair sum.exhaust)
  then show ?thesis by (simp add: app_draw_def)
qed

theorem draw_refused_witness:
  "(\<exists>ps. map_of (gamePopulation scenario_c) 1 = Some ps \<and> req_user scenario_c 2 \<notin> userId ` set ps) \<and>
   step scenario_c (Draw 2 1) =
     (scenario_c, Resp ''400'' (Text ''game does not exist or you are not in that game.''))"
proof -
  have h: "\<exists>ps. map_of (gamePopulation scenario_c) 1 = Some ps \<and> req_user scenario_c 2 \<notin> userId ` set ps"
    by (simp add: scenario_c_eq scenario_a_eq model_defs)
  from draw_refused [OF disjI2 [OF h]] h show ?thesis by simp
qed

text \<open>
  C7. Fan-out after a draw: when every participant of the game has an open socket, the
  drawing participant's card count goes up by one, the reply is
  \<^verbatim>\<open>'card drawn'\<close>, every participant's socket receives the notification exactly
  once (the drawer's included), and no other socket receives anything.
\<close>

theorem draw_notifies_each_participant_once:
  assumes reach: "reachable s"
    and game: "map_of (gamePopulation s) g = Some ps"
    and member: "req_user s sid \<in> userId ` set ps"
    and conn: "\<forall>p\<in>set ps. \<exists>w. lookup_conn (conn_map s) (userId p) = Some w \<and> readyState (sockets s ! w) = OPEN"
  shows "snd (step s (Draw sid g)) = Resp ''OK'' (Text ''card drawn'') \<and>
         card_count (the (map_of (gamePopulation (fst (step s (Draw sid g)))) g)) (req_user s sid) =
           Suc (card_count ps (req_user s sid)) \<and>
         (\<forall>w<length (sockets s).
            received (sockets (fst (step s (Draw sid g))) ! w) =
            received (sockets s ! w) @
              (if \<exists>p\<in>set ps. lookup_conn (conn_map s) (userId p) = Some w
               then [''someone got a card''] else []))"
proof -
  from reach have inv: "srv_inv s" by (rule reachable_srv_inv)
  note d = draw_connected [OF inv game member conn]
  have "card_count (push_card (req_user s sid) ps) (req_user s sid) = Suc (card_count ps (req_user s sid))"
    using member by (simp add: card_count_push_card)
  with d show ?thesis by (simp add: map_of_update_eq)
qed

theorem draw_notifies_each_participant_once_witness:
  "reachable scenario_b \<and>
   map_of (gamePopulation scenario_b) 1 =
     Some [\<lparr>userId = Some 0, cards = []\<rparr>, \<lparr>userId = Some 2, cards = []\<rparr>] \<and>
   req_user scenario_b 1 \<in> userId ` set [\<lparr>userId = Some 0, cards = []\<rparr>, \<lparr>userId = Some 2, cards = []\<rparr>] \<and>
   snd (step scenario_b (Draw 1 1)) = Resp ''OK'' (Text ''card drawn'') \<and>
   received (sockets (fst (step scenario_b (Draw 1 1))) ! 1) = [''someone got a card'']"
proof -
  let ?ps = "[\<lparr>userId = Some 0, cards = []\<rparr>, \<lparr>userId = Some 2, cards = []\<rparr>]"
  have g: "map_of (gamePopulation scenario_b) 1 = Some ?ps"
    and m: "req_user scenario_b 1 \<in> userId ` set ?ps"
    and c: "\<forall>p\<in>set ?ps. \<exists>w. lookup_conn (conn_map scenario_b) (userId p) = Some w \<and>
                readyState (sockets scenario_b ! w) = OPEN"
    by (simp_all add: scenario_b_eq model_defs)
  have "\<forall>w<length (sockets scenario_b).
          received (sockets (fst (step scenario_b (Draw 1 1))) ! w) =
          received (sockets scenario_b ! w) @
            (if \<exists>p\<in>set ?ps. lookup_conn (conn_map scenario_b) (userId p) = Some w
             then [''someone got a card''] else [])"
    and ok: "snd (step scenario_b (Draw 1 1)) = Resp ''OK'' (Text ''card drawn'')"
    using draw_notifies_each_participant_once [OF reachable_scenario_b g m c] by simp_all
  then have "received (sockets (fst (step scenario_b (Draw 1 1))) ! 1) = [''someone got a card'']"
    by (simp add: scenario_b_eq model_defs)
  with g m ok reachable_scenario_b show ?thesis by simp
qed

text \<open>
  C8. A draw in a game where some participant has no socket in \<^verbatim>\<open>map\<close>: the card
  is pushed, then \<^verbatim>\<open>map.get(part.userId).send\<close> throws, so the reply is the
  error of Express, not \<^verbatim>\<open>'card drawn'\<close>, and the drawn card stays.
\<close>

theorem draw_throws_on_missing_socket:
  assumes game: "map_of (gamePopulation s) g = Some ps"
    and member: "req_user s sid \<in> userId ` set ps"
    and missing: "\<exists>p\<in>set ps. lookup_conn (conn_map s) (userId p) = None"
  shows "snd (step s (Draw sid g)) = InternalError \<and>
         card_count (the (map_of (gamePopulation (fst (step s (Draw sid g)))) g)) (req_user s sid) =
           Suc (card_count ps (req_user s sid))"
proof -
  let ?u = "req_user s sid"
  have d: "draw_card (gamePopulation s) g ?u = Inr (AList.update g (push_card ?u ps) (gamePopulation s), push_card ?u ps)"
    using game member by (simp add: draw_card_Inr)
  have "userId ` set (push_card ?u ps) = userId ` set ps"
    by (metis list.set_map push_card_userIds)
  with missing have "\<not> all_connected (conn_map s) (push_card ?u ps)"
    by (force simp: all_connected_def list_all_iff)
  with app_draw_Inr [OF d] member show ?thesis
    by (simp add: map_of_update_eq card_count_push_card)
qed

theorem draw_throws_on_missing_socket_witness:
  "map_of (gamePopulation scenario_d) 1 =
     Some [\<lparr>userId = Some 0, cards = []\<rparr>, \<lparr>userId = Some 2, cards = []\<rparr>] \<and>
   req_user scenario_d 1 \<in> userId ` set [\<lparr>userId = Some 0, cards = []\<rparr>, \<lparr>userId = Some 2, cards = []\<rparr>] \<and>
   snd (step scenario_d (Draw 1 1)) = InternalError \<and>
   gamePopulation (fst (step scenario_d (Draw 1 1))) =
     [(1, [\<lparr>userId = Some 0, cards = [''newCard'']\<rparr>, \<lparr>userId = Some 2, cards = []\<rparr>])]"
proof -
  let ?ps = "[\<lparr>userId = Some 0, cards = []\<rparr>, \<lparr>userId = Some 2, cards = []\<rparr>]"
  have g: "map_of (gamePopulation scenario_d) 1 = Some ?ps"
    and m: "req_user scenario_d 1 \<in> userId ` set ?ps"
    and c: "\<exists>p\<in>set ?ps. lookup_conn (conn_map scenario_d) (userId p) = None"
    by (simp_all add: scenario_d_eq scenario_a_eq model_defs)
  have "snd (step scenario_d (Draw 1 1)) = InternalError"
    using draw_throws_on_missing_socket [OF g m c] by simp
  moreover have "gamePopulation (fst (step scenario_d (Draw 1 1))) =
     [(1, [\<lparr>userId = Some 0, cards = [''newCard'']\<rparr>, \<lparr>userId = Some 2, cards = []\<rparr>])]"
    by (simp add: scenario_d_eq scenario_a_eq model_defs Let_def split: prod.splits)
  ultimately show ?thesis using g m by simp
qed

text \<open>
  C9. Logout is idempotent: a second logout from the same session finds no user id, so
  it captures no socket; its destroy callback closes nothing and still replies
  \<^verbatim>\<open>'Session destroyed'\<close>.
\<close>

theorem logout_twice_noop:
  "step (fst (step s (Logout sid))) (Logout sid) =
     ((fst (step s (Logout sid)))\<lparr>destroy_queue := destroy_queue s @ [lookup_conn (conn_map s) (req_user s sid), None]\<rparr>,
      Pending) \<and>
   step (s\<lparr>destroy_queue := None # q\<rparr>) DestroyDone =
     (s\<lparr>destroy_queue := q\<rparr>, Resp ''OK'' (Text ''Session destroyed''))"
  by (simp add: app_logout_def destroy_callback_def req_user_def session_user_destroy lookup_conn_def
      session_destroy_idem)

text \<open>
  C10. When a user has reconnected, the close event of the user's older socket runs
  \<^verbatim>\<open>map.delete(userId)\<close> and removes the newer socket's entry: the user's
  open socket becomes unreachable through \<^verbatim>\<open>map\<close>.
\<close>

theorem stale_close_unbinds_newer_socket:
  assumes "reachable s"
    and "map_of (conn_map s) u = Some w2" and "w1 \<noteq> w2"
    and "w1 < length (sockets s)" and "owner (sockets s ! w1) = u"
    and "readyState (sockets s ! w1) \<noteq> CLOSED"
  shows "map_of (conn_map (fst (step s (WsClose w1)))) u = None \<and>
         readyState (sockets (fst (step s (WsClose w1))) ! w2) = readyState (sockets s ! w2)"
  using assms by (auto simp: ws_closed_def on_close_def map_of_delete_eq nth_list_update)

theorem stale_close_unbinds_newer_socket_witness:
  "reachable scenario_e \<and> map_of (conn_map scenario_e) 0 = Some 1 \<and>
   map_of (conn_map (fst (step scenario_e (WsClose 0)))) 0 = None \<and>
   readyState (sockets (fst (step scenario_e (WsClose 0))) ! 1) = OPEN"
proof -
  have h: "map_of (conn_map scenario_e) 0 = Some 1" "(0::wsid) \<noteq> 1"
    "0 < length (sockets scenario_e)" "owner (sockets scenario_e ! 0) = 0"
    "readyState (sockets scenario_e ! 0) \<noteq> CLOSED" "readyState (sockets scenario_e ! 1) = OPEN"
    by (simp_all add: scenario_e_eq scenario_a_eq)
  from stale_close_unbinds_newer_socket [OF reachable_scenario_e h(1-5)] h(1,6) reachable_scenario_e
  show ?thesis by simp
qed

text \<open>
  C11. Connection registry consistency: in every reachable state, a lookup in
  \<^verbatim>\<open>map\<close> returns either nothing or an existing socket of that very user that
  has not closed.
\<close>

theorem lookup_gives_live_own_socket:
  "reachable s \<Longrightarrow> lookup_conn (conn_map s) k = Some w \<Longrightarrow>
   w < length (sockets s) \<and> k = Some (owner (sockets s ! w)) \<and> readyState (sockets s ! w) \<noteq> CLOSED"
  by (rule conn_inv_lookup) (simp_all add: reachable_srv_inv [THEN srv_inv_def [THEN iffD1]])

theorem lookup_gives_live_own_socket_witness:
  "reachable scenario_a \<and> lookup_conn (conn_map scenario_a) (Some 0) = Some 0 \<and>
   0 < length (sockets scenario_a) \<and> readyState (sockets scenario_a ! 0) \<noteq> CLOSED"
proof -
  have l: "lookup_conn (conn_map scenario_a) (Some 0) = Some 0"
    by (simp add: scenario_a_eq lookup_conn_def)
  from lookup_gives_live_own_socket [OF reachable_scenario_a l] l reachable_scenario_a
  show ?thesis by simp
qed

text \<open>
  C12. Login of a session without a user id binds a fresh identity: the session now
  resolves to it, no other session holds it, it is a participant of no game and it has
  no socket in \<^verbatim>\<open>map\<close>.
\<close>

theorem login_binds_fresh_identity:
  assumes reach: "reachable s" and anon: "req_user s sid = None"
  shows "snd (step s (Login sid)) = Resp ''OK'' (Text ''Session created'') \<and>
         req_user (fst (step s (Login sid))) sid = Some (uuid_next s) \<and>
         (\<forall>sid'. sid' \<noteq> sid \<longrightarrow> req_user (fst (step s (Login sid))) sid' \<noteq> Some (uuid_next s)) \<and>
         Some (uuid_next s) \<notin> set (members (gamePopulation (fst (step s (Login sid))))) \<and>
         lookup_conn (conn_map (fst (step s (Login sid)))) (Some (uuid_next s)) = None"
proof -
  have inv: "srv_inv s" using reach by (rule reachable_srv_inv)
  then have fr: "fresh_inv s" and ci: "conn_inv (conn_map s) (sockets s)"
    by (simp_all add: srv_inv_def)
  have l: "step s (Login sid) =
      (s\<lparr>uuid_next := Suc (uuid_next s), sessions := AList.update sid (uuid_next s) (sessions s)\<rparr>,
       Resp ''OK'' (Text ''Session created''))"
    using anon by (simp add: app_login_eq uuid_v4_def)
  have others: "req_user s sid' \<noteq> Some (uuid_next s)" for sid'
    using req_user_fresh [OF fr, of sid' "uuid_next s"] by auto
  have nm: "Some (uuid_next s) \<notin> set (members (gamePopulation s))"
    using fr by (auto simp: fresh_inv_def)
  have nc: "lookup_conn (conn_map s) (Some (uuid_next s)) = None"
  proof (rule ccontr)
    assume "lookup_conn (conn_map s) (Some (uuid_next s)) \<noteq> None"
    then obtain w where "lookup_conn (conn_map s) (Some (uuid_next s)) = Some w" by blast
    from conn_inv_lookup [OF ci this] fr show False by (auto simp: fresh_inv_def)
  qed
  show ?thesis
    using l others nm nc by (simp add: req_user_def session_user_def map_of_update_eq)
qed

theorem login_binds_fresh_identity_witness:
  "reachable scenario_a \<and> req_user scenario_a 2 = None \<and>
   req_user (fst (step scenario_a (Login 2))) 2 = Some 2"
proof -
  have a: "req_user scenario_a 2 = None" by (simp add: scenario_a_eq model_defs)
  have "req_user (fst (step scenario_a (Login 2))) 2 = Some (uuid_next scenario_a)"
    using login_binds_fresh_identity [OF reachable_scenario_a a] by simp
  with a reachable_scenario_a show ?thesis by (simp add: scenario_a_eq)
qed

text \<open>
  C13. Login from a session that already carries a user id is refused with
  \<^verbatim>\<open>'already logged in.'\<close> and changes nothing (no id is consumed).
\<close>

theorem login_refused_when_logged_in:
  "req_user s sid \<noteq> None \<Longrightarrow> step s (Login sid) = (s, Resp ''400'' (Text ''already logged in.''))"
  by (simp add: app_login_eq)

theorem login_refused_when_logged_in_witness:
  "req_user scenario_a 1 \<noteq> None \<and>
   step scenario_a (Login 1) = (scenario_a, Resp ''400'' (Text ''already logged in.''))"
proof -
  have a: "req_user scenario_a 1 \<noteq> None" by (simp add: scenario_a_eq model_defs)
  from login_refused_when_logged_in [OF a] a show ?thesis by simp
qed

text \<open>
  C14. Creating a game allocates a fresh game id, registers it with no participants,
  leaves every other game as it was, and replies with the id. The handler does not look
  at the session: it succeeds for a visitor who never logged in.
\<close>

theorem create_game_fresh_empty:
  assumes "reachable s"
  shows "snd (step s (CreateGame sid)) = Resp ''OK'' (GameCreated (uuid_next s)) \<and>
         uuid_next s \<notin> fst ` set (gamePopulation s) \<and>
         map_of (gamePopulation (fst (step s (CreateGame sid)))) =
           (map_of (gamePopulation s))(uuid_next s \<mapsto> [])"
proof -
  have "fresh_inv s" using reachable_srv_inv [OF assms] by (simp add: srv_inv_def)
  then have "uuid_next s \<notin> fst ` set (gamePopulation s)"
    by (auto simp: fresh_inv_def)
  then show ?thesis
    by (simp add: app_create_game_def uuid_v4_def create_game_def update_conv')
qed

theorem create_game_fresh_empty_witness:
  "reachable scenario_a \<and>
   map_of (gamePopulation (fst (step scenario_a (CreateGame 5)))) 2 = Some [] \<and>
   snd (step scenario_a (CreateGame 5)) = Resp ''OK'' (GameCreated 2)"
proof -
  have "map_of (gamePopulation (fst (step scenario_a (CreateGame 5)))) =
          (map_of (gamePopulation scenario_a))(uuid_next scenario_a \<mapsto> [])"
    and "snd (step scenario_a (CreateGame 5)) = Resp ''OK'' (GameCreated (uuid_next scenario_a))"
    using create_game_fresh_empty [OF reachable_scenario_a] by simp_all
  with reachable_scenario_a show ?thesis by (simp add: scenario_a_eq)
qed

text \<open>
  C19. A WebSocket upgrade from a session without a user id is refused by destroying
  the socket; nothing is registered.
\<close>

theorem upgrade_without_session_rejected:
  "req_user s sid = None \<Longrightarrow> step s (Upgrade sid) = (s, SocketDestroyed)"
  by (simp add: upgrade_def)

theorem upgrade_without_session_rejected_witness:
  "req_user scenario_a 5 = None \<and> step scenario_a (Upgrade 5) = (scenario_a, SocketDestroyed)"
proof -
  have a: "req_user scenario_a 5 = None" by (simp add: scenario_a_eq model_defs)
  from upgrade_without_session_rejected [OF a] a show ?thesis by simp
qed

text \<open>
  C20. Visitors who never logged in all have the user id \<^verbatim>\<open>undefined\<close>: once one
  anonymous session has joined a game, every anonymous session is a participant of it.
  Another anonymous session is refused with \<open>you can only be in 1 game.\<close> for every
  existing game, and its draw in that game pushes the card onto the participant the
  first session created.
\<close>

theorem anonymous_sessions_share_participant:
  assumes a: "req_user s a = None" and b: "req_user s b = None"
    and g: "map_of (gamePopulation s) g = Some ps" and free: "None \<notin> set (members (gamePopulation s))"
  shows "snd (step s (Join a g)) = Resp ''OK'' (Text ''game joined'') \<and>
    (\<forall>g'\<in>fst ` set (gamePopulation s).
       step (fst (step s (Join a g))) (Join b g') =
         (fst (step s (Join a g)), Resp ''400'' (Text ''you can only be in 1 game.''))) \<and>
    map_of (gamePopulation (fst (step (fst (step s (Join a g))) (Draw b g)))) g =
      Some (ps @ [\<lparr>userId = None, cards = [''newCard'']\<rparr>])"
proof -
  let ?gp1 = "AList.update g (ps @ [new_participant None]) (gamePopulation s)"
  let ?s1 = "s\<lparr>gamePopulation := ?gp1\<rparr>"
  have j: "join_game (gamePopulation s) g None = Inr ?gp1"
    using g free by (simp add: join_game_Inr)
  then have s1: "step s (Join a g) = (?s1, Resp ''OK'' (Text ''game joined''))"
    using a by (simp add: app_join_def)
  have b1: "req_user ?s1 b = None" using b by (simp add: req_user_def)
  have mem: "None \<in> set (members ?gp1)" using join_game_members [OF j] by simp
  have refuse: "step ?s1 (Join b g') = (?s1, Resp ''400'' (Text ''you can only be in 1 game.''))"
    if "g' \<in> fst ` set (gamePopulation s)" for g'
  proof -
    from that have "g' \<in> fst ` set ?gp1" by (simp add: dom_update)
    then obtain ps1 where "map_of ?gp1 g' = Some ps1" by (metis map_of_eq_None_iff not_Some_eq)
    with mem b1 show ?thesis by (simp add: app_join_def join_game_def already_in_game_iff)
  qed
  from g have "(g, ps) \<in> set (gamePopulation s)" by (rule map_of_SomeD)
  with free have "None \<notin> userId ` set ps" by (auto simp: mem_members)
  then have push: "push_card None (ps @ [new_participant None]) = ps @ [\<lparr>userId = None, cards = [''newCard'']\<rparr>]"
    by (simp add: push_card_append_absent new_participant_def)
  have "draw_card ?gp1 g None =
      Inr (AList.update g (ps @ [\<lparr>userId = None, cards = [''newCard'']\<rparr>]) ?gp1,
           ps @ [\<lparr>userId = None, cards = [''newCard'']\<rparr>])"
    using push by (simp add: draw_card_Inr map_of_update_eq new_participant_def)
  then have "map_of (gamePopulation (fst (app_draw ?s1 b g))) g =
      Some (ps @ [\<lparr>userId = None, cards = [''newCard'']\<rparr>])"
    using b1 by (simp add: app_draw_def Let_def map_of_update_eq split: prod.split sum.split)
  with s1 refuse show ?thesis by simp
qed

theorem anonymous_sessions_share_participant_witness:
  "req_user scenario_a 8 = None \<and> req_user scenario_a 9 = None \<and>
   map_of (gamePopulation scenario_a) 1 = Some [\<lparr>userId = Some 0, cards = []\<rparr>] \<and>
   None \<notin> set (members (gamePopulation scenario_a)) \<and>
   step (fst (step scenario_a (Join 8 1))) (Join 9 1) =
     (fst (step scenario_a (Join 8 1)), Resp ''400'' (Text ''you can only be in 1 game.'')) \<and>
   map_of (gamePopulation (fst (step (fst (step scenario_a (Join 8 1))) (Draw 9 1)))) 1 =
     Some [\<lparr>userId = Some 0, cards = []\<rparr>, \<lparr>userId = None, cards = [''newCard'']\<rparr>]"
proof -
  have h: "req_user scenario_a 8 = None" "req_user scenario_a 9 = None"
    "map_of (gamePopulation scenario_a) 1 = Some [\<lparr>userId = Some 0, cards = []\<rparr>]"
    "None \<notin> set (members (gamePopulation scenario_a))" "(1::uuid) \<in> fst ` set (gamePopulation scenario_a)"
    by (simp_all add: scenario_a_eq model_defs members_def)
  note t = anonymous_sessions_share_participant [OF h(1-4)]
  have "step (fst (step scenario_a (Join 8 1))) (Join 9 1) =
     (fst (step scenario_a (Join 8 1)), Resp ''400'' (Text ''you can only be in 1 game.''))"
    using bspec [OF t [THEN conjunct2, THEN conjunct1] h(5)] .
  with t h show ?thesis by simp
qed

text \<open>
  C21. The scenario of the specification, from any reachable state and any session
  that is not logged in: login, create a game, join it, open the socket and draw. The
  game holds exactly the drawer with one card, the reply is \<open>card drawn\<close>, the new
  socket received exactly one notification, and no other socket received anything.
\<close>

theorem scenario_login_create_join_draw:
  assumes reach: "reachable s" and anon: "req_user s sid = None"
  shows "snd (step (run s [Login sid, CreateGame sid, Join sid (Suc (uuid_next s)), Upgrade sid])
             (Draw sid (Suc (uuid_next s)))) = Resp ''OK'' (Text ''card drawn'') \<and>
    map_of (gamePopulation (run s [Login sid, CreateGame sid, Join sid (Suc (uuid_next s)),
        Upgrade sid, Draw sid (Suc (uuid_next s))])) (Suc (uuid_next s)) =
      Some [\<lparr>userId = Some (uuid_next s), cards = [''newCard'']\<rparr>] \<and>
    received (sockets (run s [Login sid, CreateGame sid, Join sid (Suc (uuid_next s)),
        Upgrade sid, Draw sid (Suc (uuid_next s))]) ! length (sockets s)) = [''someone got a card''] \<and>
    (\<forall>w<length (sockets s).
       received (sockets (run s [Login sid, CreateGame sid, Join sid (Suc (uuid_next s)),
         Upgrade sid, Draw sid (Suc (uuid_next s))]) ! w) = received (sockets s ! w))"
proof -
  let ?n = "uuid_next s" and ?L = "length (sockets s)"
  let ?p = "\<lparr>userId = Some ?n, cards = []\<rparr>"
  let ?gp = "AList.update (Suc ?n) [?p] (create_game (gamePopulation s) (Suc ?n))"
  let ?s4 = "s\<lparr>sessions := AList.update sid ?n (sessions s), uuid_next := Suc (Suc ?n),
     gamePopulation := ?gp, conn_map := AList.update ?n ?L (conn_map s),
     sockets := sockets s @ [\<lparr>owner = ?n, readyState = OPEN, received = []\<rparr>]\<rparr>"
  have inv: "srv_inv s" using reach by (rule reachable_srv_inv)
  then have f: "fresh_inv s" by (simp add: srv_inv_def)
  have "Some ?n \<notin> set (members (gamePopulation s))" using f by (force simp: fresh_inv_def)
  then have nm: "Some ?n \<notin> set (members (create_game (gamePopulation s) (Suc ?n)))"
    using create_game_members by blast
  have cg: "map_of (create_game (gamePopulation s) (Suc ?n)) (Suc ?n) = Some []"
    by (simp add: create_game_def map_of_update_eq)
  have j: "join_game (create_game (gamePopulation s) (Suc ?n)) (Suc ?n) (Some ?n) = Inr ?gp"
    using nm cg by (simp add: join_game_Inr new_participant_def)
  have run4: "run s [Login sid, CreateGame sid, Join sid (Suc ?n), Upgrade sid] = ?s4"
    using anon j
    by (simp add: app_login_eq app_create_game_def app_join_def upgrade_def uuid_v4_def
        req_user_def session_user_def map_of_update_eq on_connection_def Let_def)
  have r4: "reachable ?s4" using reachable_run [OF reach] run4 by metis
  have game: "map_of (gamePopulation ?s4) (Suc ?n) = Some [?p]" by (simp add: map_of_update_eq)
  have u4: "req_user ?s4 sid = Some ?n" by (simp add: req_user_def session_user_def map_of_update_eq)
  then have member: "req_user ?s4 sid \<in> userId ` set [?p]" by simp
  have lk: "lookup_conn (conn_map ?s4) (Some ?n) = Some ?L" by (simp add: lookup_conn_def map_of_update_eq)
  have conn: "\<forall>p\<in>set [?p]. \<exists>w. lookup_conn (conn_map ?s4) (userId p) = Some w \<and>
      readyState (sockets ?s4 ! w) = OPEN" using lk by simp
  note d = draw_connected [OF reachable_srv_inv [OF r4] game member conn]
  have recv: "received (sockets (fst (step ?s4 (Draw sid (Suc ?n)))) ! w) =
      received (sockets ?s4 ! w) @ (if w = ?L then [''someone got a card''] else [])"
    if "w < Suc ?L" for w
    using d(2) [of w] that lk by (auto simp: d(1) u4 simp del: step.simps)
  have r5: "run s [Login sid, CreateGame sid, Join sid (Suc ?n), Upgrade sid, Draw sid (Suc ?n)] =
      fst (step ?s4 (Draw sid (Suc ?n)))"
    using run4 by (simp del: step.simps)
  have "map_of (gamePopulation (fst (step ?s4 (Draw sid (Suc ?n))))) (Suc ?n) =
      Some [\<lparr>userId = Some ?n, cards = [''newCard'']\<rparr>]"
    by (simp add: d(1) u4 map_of_update_eq del: step.simps)
  with r5 run4 recv [of ?L] recv d(1) show ?thesis
    by (simp add: u4 nth_append del: step.simps)
qed

theorem scenario_login_create_join_draw_witness:
  "reachable init_srv \<and> req_user init_srv 1 = None \<and>
   snd (step (run init_srv [Login 1, CreateGame 1, Join 1 1, Upgrade 1]) (Draw 1 1)) =
     Resp ''OK'' (Text ''card drawn'') \<and>
   received (sockets (run init_srv [Login 1, CreateGame 1, Join 1 1, Upgrade 1, Draw 1 1]) ! 0) =
     [''someone got a card'']"
proof -
  have h: "reachable init_srv" by (rule reachable.init)
  moreover have "req_user init_srv 1 = None" "uuid_next init_srv = 0" "length (sockets init_srv) = 0"
    by (simp_all add: model_defs)
  ultimately have h: "reachable init_srv" "req_user init_srv 1 = None" "uuid_next init_srv = 0"
    "length (sockets init_srv) = 0" by simp_all
  from scenario_login_create_join_draw [OF h(1,2)] h show ?thesis by (simp del: run.simps step.simps)
qed

text \<open>
  C22. Logout closes the socket only through the close event: after the logout and its
  destroy callback the socket is closing but still in \<^verbatim>\<open>map\<close>; the close event
  then removes it, and the session no longer resolves to the user.
\<close>

theorem logout_then_close_unbinds:
  assumes "destroy_queue s = []" and "req_user s sid = Some u"
    and "map_of (conn_map s) u = Some w" and "w < length (sockets s)"
    and "readyState (sockets s ! w) = OPEN" and "owner (sockets s ! w) = u"
  shows "req_user (run s [Logout sid]) sid = None \<and>
         snd (step (run s [Logout sid]) DestroyDone) = Resp ''OK'' (Text ''Session destroyed'') \<and>
         readyState (sockets (run s [Logout sid, DestroyDone]) ! w) = CLOSING \<and>
         map_of (conn_map (run s [Logout sid, DestroyDone])) u = Some w \<and>
         map_of (conn_map (run s [Logout sid, DestroyDone, WsClose w])) u = None \<and>
         readyState (sockets (run s [Logout sid, DestroyDone, WsClose w]) ! w) = CLOSED"
  using assms
  by (simp add: app_logout_def destroy_callback_def ws_closed_def on_close_def ws_close_def
      req_user_def session_user_destroy lookup_conn_def map_of_delete_eq)

theorem logout_then_close_unbinds_witness:
  "destroy_queue scenario_a = [] \<and> req_user scenario_a 1 = Some 0 \<and>
   map_of (conn_map (run scenario_a [Logout 1, DestroyDone])) 0 = Some 0 \<and>
   map_of (conn_map (run scenario_a [Logout 1, DestroyDone, WsClose 0])) 0 = None"
proof -
  have h: "destroy_queue scenario_a = []" "req_user scenario_a 1 = Some 0"
    "map_of (conn_map scenario_a) 0 = Some 0" "0 < length (sockets scenario_a)"
    "readyState (sockets scenario_a ! 0) = OPEN" "owner (sockets scenario_a ! 0) = 0"
    by (simp_all add: scenario_a_eq model_defs)
  from logout_then_close_unbinds [OF h] h(1,2) show ?thesis by simp
qed

text \<open>
  C23. A second upgrade of the same user replaces the map entry with the new socket and
  does not close the old one, which stays open but unreachable through the map.
\<close>

theorem reconnect_keeps_old_socket_open:
  assumes "req_user s sid = Some u" and "map_of (conn_map s) u = Some w1" and "w1 < length (sockets s)"
  shows "snd (step s (Upgrade sid)) = Upgraded (length (sockets s)) \<and>
         map_of (conn_map (fst (step s (Upgrade sid)))) u = Some (length (sockets s)) \<and>
         sockets (fst (step s (Upgrade sid))) ! w1 = sockets s ! w1"
  using assms by (simp add: upgrade_def on_connection_def Let_def map_of_update_eq nth_append)

theorem reconnect_keeps_old_socket_open_witness:
  "req_user scenario_a 1 = Some 0 \<and> map_of (conn_map scenario_a) 0 = Some 0 \<and>
   map_of (conn_map (fst (step scenario_a (Upgrade 1)))) 0 = Some 1 \<and>
   readyState (sockets (fst (step scenario_a (Upgrade 1))) ! 0) = OPEN"
proof -
  have h: "req_user scenario_a 1 = Some 0" "map_of (conn_map scenario_a) 0 = Some 0"
    "0 < length (sockets scenario_a)"
    by (simp_all add: scenario_a_eq model_defs)
  from reconnect_keeps_old_socket_open [OF h] h(1,2) show ?thesis by (simp add: scenario_a_eq)
qed

text \<open>
  C24. Games are never destroyed and participants never removed: after any event from a
  reachable state, every game keeps its participants, in order, possibly with new ones
  appended.
\<close>

theorem participants_never_removed:
  assumes reach: "reachable s" and g: "map_of (gamePopulation s) g = Some ps"
  shows "\<exists>ps' new. map_of (gamePopulation (fst (step s e))) g = Some ps' \<and>
                   map userId ps' = map userId ps @ new"
proof (cases e)
  case (CreateGame sid)
  have "fresh_inv s" using reachable_srv_inv [OF reach] by (simp add: srv_inv_def)
  with g have "g \<noteq> uuid_next s" by (force simp: fresh_inv_def dest: map_of_SomeD)
  with g CreateGame show ?thesis
    by (simp add: app_create_game_def uuid_v4_def create_game_def map_of_update_eq)
next
  case (Join sid g')
  show ?thesis
  proof (cases "join_game (gamePopulation s) g' (req_user s sid)")
    case (Inl err)
    with g Join show ?thesis by (simp add: app_join_def)
  next
    case (Inr gp')
    then obtain ps0 where "map_of (gamePopulation s) g' = Some ps0"
      and "gp' = AList.update g' (ps0 @ [new_participant (req_user s sid)]) (gamePopulation s)"
      by (auto simp: join_game_Inr)
    with g Inr Join show ?thesis by (auto simp: app_join_def map_of_update_eq)
  qed
next
  case (Draw sid g')
  show ?thesis
  proof (cases "draw_card (gamePopulation s) g' (req_user s sid)")
    case (Inl err)
    with g Draw show ?thesis by (simp add: app_draw_def)
  next
    case (Inr r)
    obtain gp' ps' where r: "r = (gp', ps')" by fastforce
    with Inr obtain ps0 where "map_of (gamePopulation s) g' = Some ps0"
      and "ps' = push_card (req_user s sid) ps0" and "gp' = AList.update g' ps' (gamePopulation s)"
      by (auto simp: draw_card_Inr)
    with g Inr r Draw show ?thesis
      by (auto simp: app_draw_Inr map_of_update_eq push_card_userIds)
  qed
qed (use g in \<open>simp_all add: model_defs Let_def split: prod.splits option.splits list.splits\<close>)

theorem participants_never_removed_witness:
  "reachable scenario_a \<and> map_of (gamePopulation scenario_a) 1 = Some [\<lparr>userId = Some 0, cards = []\<rparr>] \<and>
   (\<exists>ps' new. map_of (gamePopulation (fst (step scenario_a (CreateGame 1)))) 1 = Some ps' \<and>
             map userId ps' = map userId [\<lparr>userId = Some 0, cards = []\<rparr>] @ new)"
proof -
  have g: "map_of (gamePopulation scenario_a) 1 = Some [\<lparr>userId = Some 0, cards = []\<rparr>]"
    by (simp add: scenario_a_eq)
  from participants_never_removed [OF reachable_scenario_a g] g reachable_scenario_a
  show ?thesis by blast
qed

text \<open>
  C30. Bounds: in every reachable state the server holds no more games than ids it has
  issued, no more participant records than issued user ids plus the one anonymous
  identity, and no more entries in \<^verbatim>\<open>map\<close> than issued ids.
\<close>

theorem registries_bounded_by_ids:
  assumes "reachable s"
  shows "length (gamePopulation s) \<le> uuid_next s \<and>
    length (members (gamePopulation s)) \<le> Suc (uuid_next s) \<and>
    length (conn_map s) \<le> uuid_next s"
proof -
  from assms have inv: "srv_inv s" by (rule reachable_srv_inv)
  then have g: "games_inv (gamePopulation s)" and c: "conn_inv (conn_map s) (sockets s)"
    and f: "fresh_inv s" by (simp_all add: srv_inv_def)
  have "length (map fst (gamePopulation s)) \<le> uuid_next s"
    using g f by (intro distinct_bounded_length) (auto simp: games_inv_def fresh_inv_def)
  moreover have "length (members (gamePopulation s)) \<le> Suc (uuid_next s)"
    using g f by (intro distinct_option_bounded_length) (simp_all add: games_inv_def fresh_inv_def)
  moreover have "length (map fst (conn_map s)) \<le> uuid_next s"
    using c f by (intro distinct_bounded_length) (fastforce simp: conn_inv_def fresh_inv_def)+
  ultimately show ?thesis by simp
qed

theorem registries_bounded_by_ids_witness:
  "reachable scenario_b \<and> length (gamePopulation scenario_b) \<le> uuid_next scenario_b \<and>
   length (members (gamePopulation scenario_b)) \<le> Suc (uuid_next scenario_b) \<and>
   length (conn_map scenario_b) \<le> uuid_next scenario_b \<and>
   length (members (gamePopulation scenario_b)) = 2 \<and> uuid_next scenario_b = 3"
  using registries_bounded_by_ids [OF reachable_scenario_b] reachable_scenario_b
  by (simp add: scenario_b_eq members_def)

text \<open>
  C29. Login and logout round trip: from a reachable state, a session that is not
  logged in logs in (\<open>Session created\<close>), logs out, and the destroy callback
  replies \<open>Session destroyed\<close>; afterwards the server is exactly as before except that
  one id has been used up. Logout finds no socket of the new user, so nothing is closed.
\<close>

theorem login_logout_roundtrip:
  assumes reach: "reachable s" and anon: "req_user s sid = None" and q: "destroy_queue s = []"
  shows "snd (step s (Login sid)) = Resp ''OK'' (Text ''Session created'') \<and>
    snd (step (run s [Login sid, Logout sid]) DestroyDone) = Resp ''OK'' (Text ''Session destroyed'') \<and>
    run s [Login sid, Logout sid, DestroyDone] = s\<lparr>uuid_next := Suc (uuid_next s)\<rparr>"
proof -
  let ?n = "uuid_next s"
  have inv: "srv_inv s" using reach by (rule reachable_srv_inv)
  have nc: "lookup_conn (conn_map s) (Some ?n) = None"
  proof (rule ccontr)
    assume "lookup_conn (conn_map s) (Some ?n) \<noteq> None"
    then obtain w where "lookup_conn (conn_map s) (Some ?n) = Some w" by blast
    with inv have "w < length (sockets s)" and "?n = owner (sockets s ! w)"
      by (auto simp: srv_inv_def dest: conn_inv_lookup)
    with inv show False by (auto simp: srv_inv_def fresh_inv_def)
  qed
  from anon have "sid \<notin> fst ` set (sessions s)"
    by (simp add: req_user_def session_user_def map_of_eq_None_iff)
  then have del: "AList.delete sid (AList.update sid ?n (sessions s)) = sessions s"
    by (simp add: delete_update_same delete_id)
  show ?thesis
    using anon q nc del
    by (simp add: app_login_eq app_logout_def destroy_callback_def uuid_v4_def req_user_def
        session_user_def session_destroy_def map_of_update_eq Let_def)
qed

theorem login_logout_roundtrip_witness:
  "reachable scenario_a \<and> req_user scenario_a 5 = None \<and> destroy_queue scenario_a = [] \<and>
   run scenario_a [Login 5, Logout 5, DestroyDone] = scenario_a\<lparr>uuid_next := Suc (uuid_next scenario_a)\<rparr>"
proof -
  have h: "req_user scenario_a 5 = None" "destroy_queue scenario_a = []"
    by (simp_all add: scenario_a_eq model_defs)
  from login_logout_roundtrip [OF reachable_scenario_a h] reachable_scenario_a h
  show ?thesis by (simp del: run.simps step.simps)
qed

end
